theory Spec2Isabelle
  imports Main "HOL-Library.Multiset" "HOL-Library.Monad_Syntax"
begin

section \<open>Task records (pkg/task/task.go)\<close>

text \<open>
  A Go \<^verbatim>\<open>time.Time\<close> is an instant together with a location. It is represented here by
  the calendar reading of the instant in its own location (the fields \<^verbatim>\<open>Format\<close> prints),
  the nanoseconds within the second, and the offset of that location from UTC in seconds.
\<close>

record Time =
  year :: int
  month :: nat
  day :: nat
  hour :: nat
  minute :: nat
  second :: nat
  nsec :: nat
  zoneOffset :: int

definition PriorityHigh :: string where "PriorityHigh = ''high''"
definition PriorityMedium :: string where "PriorityMedium = ''medium''"
definition PriorityLow :: string where "PriorityLow = ''low''"

text \<open>The struct \<^verbatim>\<open>Task\<close>; \<^verbatim>\<open>ID\<close> is a Go \<^verbatim>\<open>int\<close> (64 bits), kept as an integer
  whose range is enforced where the program reads or computes one.\<close>

record Task =
  CreatedAt :: Time
  Title :: string
  Priority :: string
  ID :: int
  Done :: bool

text \<open>The method \<^verbatim>\<open>func (t *Task) AddTask(title, priority string)\<close>; the clock reading
  \<^verbatim>\<open>time.Now()\<close> is the parameter \<open>now\<close>.\<close>

definition Task_AddTask :: "Time \<Rightarrow> Task \<Rightarrow> string \<Rightarrow> string \<Rightarrow> Task" where
  "Task_AddTask now t title priority =
     t\<lparr>Title := title, Done := False, CreatedAt := now, Priority := priority\<rparr>"

text \<open>The package-level \<^verbatim>\<open>func AddTask(id int, title string, priority string) Task\<close>.\<close>

definition AddTask :: "Time \<Rightarrow> int \<Rightarrow> string \<Rightarrow> string \<Rightarrow> Task" where
  "AddTask now tid title priority =
     (let priority =
        (if priority \<noteq> PriorityHigh \<and> priority \<noteq> PriorityMedium \<and> priority \<noteq> PriorityLow
         then PriorityMedium else priority)
      in \<lparr>CreatedAt = now, Title = title, Priority = priority, ID = tid, Done = False\<rparr>)"

definition PriorityValue :: "Task \<Rightarrow> int" where
  "PriorityValue t =
     (if Priority t = PriorityHigh then 3
      else if Priority t = PriorityMedium then 2
      else if Priority t = PriorityLow then 1
      else 0)"

section \<open>Text produced and read by the standard library\<close>

subsection \<open>Decimal integers: \<^verbatim>\<open>%d\<close> and \<^verbatim>\<open>strconv.Atoi\<close>\<close>

definition isDigit :: "char \<Rightarrow> bool" where
  "isDigit c = (48 \<le> (of_char c :: nat) \<and> (of_char c :: nat) \<le> 57)"

definition digit_val :: "char \<Rightarrow> nat" where
  "digit_val c = of_char c - 48"

definition digit_char :: "nat \<Rightarrow> char" where
  "digit_char n = char_of (48 + n)"

fun nat_digits :: "nat \<Rightarrow> string" where
  "nat_digits n = (if n < 10 then [digit_char n] else nat_digits (n div 10) @ [digit_char (n mod 10)])"

declare nat_digits.simps [simp del]

definition digits_val :: "string \<Rightarrow> nat" where
  "digits_val ds = foldl (\<lambda>a c. 10 * a + digit_val c) 0 ds"

text \<open>The verb \<^verbatim>\<open>%d\<close> of \<^verbatim>\<open>fmt.Sprintf\<close> on an \<^verbatim>\<open>int\<close>.\<close>

definition fmt_d :: "int \<Rightarrow> string" where
  "fmt_d x = (if x < 0 then CHR ''-'' # nat_digits (nat (- x)) else nat_digits (nat x))"

text \<open>\<^verbatim>\<open>strconv.Atoi\<close>: an optional sign, then one or more decimal digits, and a value
  that fits the 64-bit \<^verbatim>\<open>int\<close>; anything else is an error.\<close>

definition Atoi :: "string \<Rightarrow> int option" where
  "Atoi s =
     (case s of
        [] \<Rightarrow> None
      | c # cs \<Rightarrow>
          (let ds = (if c = CHR ''-'' \<or> c = CHR ''+'' then cs else s) in
           if ds = [] \<or> \<not> list_all isDigit ds then None
           else
             (let v = (if c = CHR ''-'' then - int (digits_val ds) else int (digits_val ds)) in
              if - (2 ^ 63) \<le> v \<and> v < 2 ^ 63 then Some v else None)))"

subsection \<open>Booleans: \<^verbatim>\<open>%t\<close> and \<^verbatim>\<open>strconv.ParseBool\<close>\<close>

definition fmt_t :: "bool \<Rightarrow> string" where
  "fmt_t b = (if b then ''true'' else ''false'')"

definition ParseBool :: "string \<Rightarrow> bool option" where
  "ParseBool str =
     (if str \<in> set [''1'', ''t'', ''T'', ''TRUE'', ''true'', ''True''] then Some True
      else if str \<in> set [''0'', ''f'', ''F'', ''FALSE'', ''false'', ''False''] then Some False
      else None)"

subsection \<open>Timestamps in the layout \<^verbatim>\<open>2006-01-02 15:04:05\<close>\<close>

text \<open>\<^verbatim>\<open>appendInt\<close> of package time: the decimal digits, padded with zeros on the left
  to the width, after a minus sign for a negative number.\<close>

definition appendInt :: "int \<Rightarrow> nat \<Rightarrow> string" where
  "appendInt x width =
     (let ds = nat_digits (nat \<bar>x\<bar>)
      in (if x < 0 then ''-'' else []) @ replicate (width - length ds) (CHR ''0'') @ ds)"

text \<open>\<^verbatim>\<open>t.Format(timeFormat)\<close>.\<close>

definition Format :: "Time \<Rightarrow> string" where
  "Format t =
     appendInt (year t) 4 @ ''-'' @ appendInt (int (month t)) 2 @ ''-''
     @ appendInt (int (day t)) 2 @ '' '' @ appendInt (int (hour t)) 2 @ '':''
     @ appendInt (int (minute t)) 2 @ '':'' @ appendInt (int (second t)) 2"

definition isLeap :: "nat \<Rightarrow> bool" where
  "isLeap y = (y mod 4 = 0 \<and> (y mod 100 \<noteq> 0 \<or> y mod 400 = 0))"

definition daysIn :: "nat \<Rightarrow> nat \<Rightarrow> nat" where
  "daysIn m y =
     (if m = 2 then (if isLeap y then 29 else 28)
      else if m = 4 \<or> m = 6 \<or> m = 9 \<or> m = 11 then 30
      else 31)"

text \<open>\<^verbatim>\<open>getnum\<close> of package time: one or two digits, exactly two when \<open>fixed\<close>.\<close>

definition getnum :: "string \<Rightarrow> bool \<Rightarrow> (nat \<times> string) option" where
  "getnum s fixed =
     (case s of
        [] \<Rightarrow> None
      | c # cs \<Rightarrow>
          if \<not> isDigit c then None
          else
            (case cs of
               [] \<Rightarrow> if fixed then None else Some (digit_val c, cs)
             | d # ds \<Rightarrow>
                 if \<not> isDigit d then (if fixed then None else Some (digit_val c, cs))
                 else Some (digit_val c * 10 + digit_val d, ds)))"

text \<open>\<^verbatim>\<open>skip\<close> of package time for a one-character literal of the layout: any other
  character must be matched exactly; a space of the layout matches any run of spaces
  of the value (and the end of the value).\<close>

definition skip :: "string \<Rightarrow> char \<Rightarrow> string option" where
  "skip v p =
     (if p = CHR '' '' then
        (case v of
           [] \<Rightarrow> Some []
         | c # cs \<Rightarrow> if c \<noteq> CHR '' '' then None else Some (dropWhile (\<lambda>x. x = CHR '' '') v))
      else
        (case v of
           [] \<Rightarrow> None
         | c # cs \<Rightarrow> if c \<noteq> p then None else Some cs))"

text \<open>After the seconds, a value may carry a fractional second that the layout does not
  mention: a period or comma followed by digits, of which the first nine count.\<close>

definition fracSecond :: "string \<Rightarrow> nat \<times> string" where
  "fracSecond v =
     (case v of
        c # d # rest \<Rightarrow>
          if (c = CHR ''.'' \<or> c = CHR '','') \<and> isDigit d then
            (let used = take 9 (takeWhile isDigit (d # rest))
             in (digits_val used * 10 ^ (9 - length used), dropWhile isDigit (d # rest)))
          else (0, v)
      | _ \<Rightarrow> (0, v))"

text \<open>\<^verbatim>\<open>time.Parse(timeFormat, value)\<close>: the result is in UTC.\<close>

definition Parse :: "string \<Rightarrow> Time option" where
  "Parse v0 =
     (if length v0 < 4 \<or> \<not> list_all isDigit (take 4 v0) then None
      else do {
        v \<leftarrow> skip (drop 4 v0) (CHR ''-'');
        (mo, v) \<leftarrow> getnum v True;
        v \<leftarrow> skip v (CHR ''-'');
        (d, v) \<leftarrow> getnum v True;
        v \<leftarrow> skip v (CHR '' '');
        (h, v) \<leftarrow> getnum v False;
        v \<leftarrow> skip v (CHR '':'');
        (mi, v) \<leftarrow> getnum v True;
        v \<leftarrow> skip v (CHR '':'');
        (s, v) \<leftarrow> getnum v True;
        (let y = digits_val (take 4 v0); (ns, v) = fracSecond v in
         if mo = 0 \<or> 12 < mo \<or> 24 \<le> h \<or> 60 \<le> mi \<or> 60 \<le> s \<or> v \<noteq> []
            \<or> d < 1 \<or> daysIn mo y < d
         then None
         else Some \<lparr>year = int y, month = mo, day = d, hour = h, minute = mi, second = s,
                    nsec = ns, zoneOffset = 0\<rparr>)
      })"

subsection \<open>\<^verbatim>\<open>strings.SplitN\<close> with a one-character separator\<close>

fun SplitN :: "string \<Rightarrow> char \<Rightarrow> nat \<Rightarrow> string list" where
  "SplitN s sep 0 = []"
| "SplitN s sep (Suc 0) = [s]"
| "SplitN s sep (Suc (Suc n)) =
     (if sep \<in> set s
      then takeWhile (\<lambda>c. c \<noteq> sep) s # SplitN (tl (dropWhile (\<lambda>c. c \<noteq> sep) s)) sep (Suc n)
      else [s])"

subsection \<open>\<^verbatim>\<open>bufio.Scanner\<close> with the default line splitter\<close>

definition MaxScanTokenSize :: nat where
  "MaxScanTokenSize = 64 * 1024"

definition dropCR :: "string \<Rightarrow> string" where
  "dropCR line = (if line \<noteq> [] \<and> last line = CHR 0x0D then butlast line else line)"

text \<open>
  One call of \<^verbatim>\<open>scanner.Scan()\<close> on the unread rest of the file: the next line without
  its line feed and without a trailing carriage return, and what follows it. The scanner's
  buffer holds at most \<^verbatim>\<open>MaxScanTokenSize\<close> bytes, so a line of that many bytes or more
  stops the scan with \<^verbatim>\<open>ErrTooLong\<close>.
\<close>

datatype scan_result = ScanToken string string | ScanEOF | ScanTooLong

definition Scan :: "string \<Rightarrow> scan_result" where
  "Scan input =
     (if input = [] then ScanEOF
      else
        (let line = takeWhile (\<lambda>c. c \<noteq> CHR 0x0A) input in
         if MaxScanTokenSize \<le> length line then ScanTooLong
         else ScanToken (dropCR line) (drop (Suc (length line)) input)))"

section \<open>The text codec (storage package)\<close>

text \<open>The file system is a map from paths to file contents. Which system call fails,
  if any, is an input of each operation.\<close>

type_synonym filesystem = "string \<rightharpoonup> string"

datatype fault =
    NoFault
  | OpenFault
  | ReadFault nat
  | WriteFault nat nat
  | FlushFault nat
  | CloseFault
  | RenameFault

text \<open>\<open>ReadFault n\<close>: reading fails after \<open>n\<close> bytes. \<open>WriteFault k n\<close>: the
  \<^verbatim>\<open>WriteString\<close> call for the record at index \<open>k\<close> reports an error, \<open>n\<close> bytes
  having reached the file. \<open>FlushFault n\<close>: \<^verbatim>\<open>Flush\<close> fails after \<open>n\<close> bytes.\<close>

datatype error =
    ErrOpen
  | ErrRead
  | ErrCreateTemp
  | ErrWriteTask int
  | ErrFlush
  | ErrCloseTemp
  | ErrRename
  | ErrOpenArchive
  | ErrFlushArchive
  | ErrArchive error

text \<open>The warnings written to the error stream, with the line number and the offending
  text they mention.\<close>

datatype diag =
    DiagBadLine nat string
  | DiagBadID nat string
  | DiagBadDone nat string
  | DiagBadDate nat string
  | DiagBadPriority nat string
  | DiagAppendWrite int

text \<open>\<^verbatim>\<open>fmt.Sprintf(taskFileFormat, t.ID, t.Title, t.Done, t.CreatedAt.Format(timeFormat),
  t.Priority)\<close> with \<^verbatim>\<open>taskFileFormat = "%d|%s|%t|%s|%s\n"\<close>.\<close>

definition taskFileFormat :: "Task \<Rightarrow> string" where
  "taskFileFormat t =
     fmt_d (ID t) @ ''|'' @ Title t @ ''|'' @ fmt_t (Done t) @ ''|''
     @ Format (CreatedAt t) @ ''|'' @ Priority t @ [CHR 0x0A]"

subsection \<open>LoadTasks\<close>

datatype line_result = Skip diag | Keep Task "diag list"

text \<open>The body of the scanning loop of \<^verbatim>\<open>LoadTasks\<close> for one line.\<close>

definition LoadTasks_line :: "nat \<Rightarrow> string \<Rightarrow> line_result" where
  "LoadTasks_line lineNumber line =
     (let parts = SplitN line (CHR ''|'') 5 in
      if length parts \<noteq> 5 then Skip (DiagBadLine lineNumber line)
      else
        (case Atoi (parts ! 0) of
           None \<Rightarrow> Skip (DiagBadID lineNumber (parts ! 0))
         | Some tid \<Rightarrow>
             (case ParseBool (parts ! 2) of
                None \<Rightarrow> Skip (DiagBadDone lineNumber (parts ! 2))
              | Some dn \<Rightarrow>
                  (case Parse (parts ! 3) of
                     None \<Rightarrow> Skip (DiagBadDate lineNumber (parts ! 3))
                   | Some created \<Rightarrow>
                       (let priority = parts ! 4 in
                        if priority = PriorityHigh \<or> priority = PriorityMedium
                           \<or> priority = PriorityLow
                        then Keep \<lparr>CreatedAt = created, Title = parts ! 1,
                                   Priority = priority, ID = tid, Done = dn\<rparr> []
                        else Keep \<lparr>CreatedAt = created, Title = parts ! 1,
                                   Priority = PriorityMedium, ID = tid, Done = dn\<rparr>
                               [DiagBadPriority lineNumber priority])))))"

text \<open>The loop \<^verbatim>\<open>for scanner.Scan() { ... }\<close> on the unread input, with the variables
  \<^verbatim>\<open>lineNumber\<close>, \<^verbatim>\<open>tasks\<close>, \<^verbatim>\<open>maxID\<close> and the warnings printed so far. The result is
  \<open>None\<close> when the scanner stops with an error.\<close>

function LoadTasks_loop ::
  "string \<Rightarrow> nat \<Rightarrow> Task list \<Rightarrow> int \<Rightarrow> diag list \<Rightarrow> diag list \<times> (Task list \<times> int) option"
where
  "LoadTasks_loop input lineNumber ts maxID diags =
     (case Scan input of
        ScanEOF \<Rightarrow> (diags, Some (ts, maxID))
      | ScanTooLong \<Rightarrow> (diags, None)
      | ScanToken line rest \<Rightarrow>
          (case LoadTasks_line (Suc lineNumber) line of
             Skip d \<Rightarrow> LoadTasks_loop rest (Suc lineNumber) ts maxID (diags @ [d])
           | Keep t ds \<Rightarrow>
               LoadTasks_loop rest (Suc lineNumber) (ts @ [t])
                 (if ID t > maxID then ID t else maxID) (diags @ ds)))"
  by pat_completeness auto
termination
  by (relation "measure (\<lambda>(input, lineNumber, ts, maxID, diags). length input)")
     (auto simp: Scan_def Let_def split: if_splits)

declare LoadTasks_loop.simps [simp del]

definition LoadTasks ::
  "fault \<Rightarrow> filesystem \<Rightarrow> string \<Rightarrow> diag list \<times> (error + Task list \<times> int)"
where
  "LoadTasks flt fs filePath =
     (case fs filePath of
        None \<Rightarrow> ([], Inr ([], 0))
      | Some content \<Rightarrow>
          if flt = OpenFault then ([], Inl ErrOpen)
          else
            (let input = (case flt of ReadFault n \<Rightarrow> take n content | _ \<Rightarrow> content);
                 readFailed = (case flt of ReadFault n \<Rightarrow> True | _ \<Rightarrow> False)
             in case LoadTasks_loop input 0 [] 0 [] of
                  (diags, None) \<Rightarrow> (diags, Inl ErrRead)
                | (diags, Some (ts, maxID)) \<Rightarrow>
                    if readFailed then (diags, Inl ErrRead) else (diags, Inr (ts, maxID))))"

subsection \<open>SaveTasks\<close>

definition writeFails :: "fault \<Rightarrow> nat \<Rightarrow> bool" where
  "writeFails flt i = (case flt of WriteFault k n \<Rightarrow> k = i | _ \<Rightarrow> False)"

text \<open>The loop \<^verbatim>\<open>for _, t := range tasks\<close> of \<^verbatim>\<open>SaveTasks\<close>: the bytes handed to the
  buffered writer, or the ID of the record whose \<^verbatim>\<open>WriteString\<close> failed.\<close>

fun SaveTasks_write :: "fault \<Rightarrow> nat \<Rightarrow> Task list \<Rightarrow> string \<Rightarrow> int + string" where
  "SaveTasks_write flt i [] buf = Inr buf"
| "SaveTasks_write flt i (t # ts) buf =
     (if writeFails flt i then Inl (ID t)
      else SaveTasks_write flt (Suc i) ts (buf @ taskFileFormat t))"

definition SaveTasks ::
  "fault \<Rightarrow> filesystem \<Rightarrow> string \<Rightarrow> Task list \<Rightarrow> error option \<times> filesystem"
where
  "SaveTasks flt fs filePath ts =
     (let tempFilePath = filePath @ ''.tmp'' in
      if flt = OpenFault then (Some ErrCreateTemp, fs)
      else
        (let fs1 = fs(tempFilePath \<mapsto> []) in
         case SaveTasks_write flt 0 ts [] of
           Inl tid \<Rightarrow> (Some (ErrWriteTask tid), fs1(tempFilePath := None))
         | Inr buf \<Rightarrow>
             (case flt of
                FlushFault n \<Rightarrow>
                  (Some ErrFlush, (fs1(tempFilePath \<mapsto> take n buf))(tempFilePath := None))
              | _ \<Rightarrow>
                  (let fs2 = fs1(tempFilePath \<mapsto> buf) in
                   if flt = CloseFault then (Some ErrCloseTemp, fs2(tempFilePath := None))
                   else if flt = RenameFault then (Some ErrRename, fs2(tempFilePath := None))
                   else (None, (fs2(filePath := fs2 tempFilePath))(tempFilePath := None))))))"

subsection \<open>AppendTask\<close>

text \<open>The loop of \<^verbatim>\<open>AppendTask\<close>. A failed write is reported and the loop goes on; the
  buffered writer refuses everything after its first error.\<close>

fun AppendTask_write ::
  "fault \<Rightarrow> nat \<Rightarrow> Task list \<Rightarrow> string \<Rightarrow> bool \<Rightarrow> diag list \<Rightarrow> string \<times> bool \<times> diag list"
where
  "AppendTask_write flt i [] buf failed diags = (buf, failed, diags)"
| "AppendTask_write flt i (t # ts) buf failed diags =
     (if failed then AppendTask_write flt (Suc i) ts buf True (diags @ [DiagAppendWrite (ID t)])
      else if writeFails flt i
      then AppendTask_write flt (Suc i) ts (buf @ taskFileFormat t) True
             (diags @ [DiagAppendWrite (ID t)])
      else AppendTask_write flt (Suc i) ts (buf @ taskFileFormat t) False diags)"

definition AppendTask ::
  "fault \<Rightarrow> filesystem \<Rightarrow> string \<Rightarrow> Task list \<Rightarrow> diag list \<times> error option \<times> filesystem"
where
  "AppendTask flt fs filePath ts =
     (if flt = OpenFault then ([], Some ErrOpenArchive, fs)
      else
        (let old = (case fs filePath of None \<Rightarrow> [] | Some content \<Rightarrow> content) in
         case AppendTask_write flt 0 ts [] False [] of
           (buf, failed, diags) \<Rightarrow>
             (case flt of
                WriteFault k n \<Rightarrow>
                  if failed then (diags, Some ErrFlushArchive, fs(filePath \<mapsto> old @ take n buf))
                  else (diags, None, fs(filePath \<mapsto> old @ buf))
              | FlushFault n \<Rightarrow> (diags, Some ErrFlushArchive, fs(filePath \<mapsto> old @ take n buf))
              | _ \<Rightarrow> (diags, None, fs(filePath \<mapsto> old @ buf)))))"

section \<open>The ID generator (pkg/utils/id_generator.go)\<close>

text \<open>Arithmetic on a 64-bit \<^verbatim>\<open>int\<close> wraps around.\<close>

definition wrap64 :: "int \<Rightarrow> int" where
  "wrap64 x = (x + 2 ^ 63) mod 2 ^ 64 - 2 ^ 63"

record IDGenerator =
  nextID :: int

definition NewIDGenerator :: "int \<Rightarrow> IDGenerator" where
  "NewIDGenerator initialMaxID = \<lparr>nextID = wrap64 (initialMaxID + 1)\<rparr>"

definition NextID :: "IDGenerator \<Rightarrow> int \<times> IDGenerator" where
  "NextID g = (nextID g, g\<lparr>nextID := wrap64 (nextID g + 1)\<rparr>)"

definition UpdateGenerator :: "int \<Rightarrow> IDGenerator \<Rightarrow> IDGenerator" where
  "UpdateGenerator maxID g = (if maxID \<ge> nextID g then g\<lparr>nextID := wrap64 (maxID + 1)\<rparr> else g)"

section \<open>The task store and its command handlers (package main)\<close>

text \<open>The package-level variables \<^verbatim>\<open>tasks\<close> and \<^verbatim>\<open>idGen\<close>; every handler runs with
  \<^verbatim>\<open>taskMutex\<close> held while it reads or writes \<^verbatim>\<open>tasks\<close>.\<close>

record app =
  tasks :: "Task list"
  idGen :: IDGenerator

definition defaultPriority :: string where
  "defaultPriority = PriorityMedium"

text \<open>What a handler reports to the user.\<close>

datatype report = Added int | AlreadyDone int | MarkedDone int | Deleted int | NotFound int

text \<open>The start of \<^verbatim>\<open>main\<close>: load the tasks, fall back to an empty store when loading
  fails, and seed the generator with the maximum ID.\<close>

definition main_load :: "fault \<Rightarrow> filesystem \<Rightarrow> string \<Rightarrow> app" where
  "main_load flt fs taskPath =
     (case snd (LoadTasks flt fs taskPath) of
        Inl loadErr \<Rightarrow> \<lparr>tasks = [], idGen = NewIDGenerator 0\<rparr>
      | Inr (ts, maxID) \<Rightarrow> \<lparr>tasks = ts, idGen = NewIDGenerator maxID\<rparr>)"

definition handleAddTask :: "Time \<Rightarrow> string \<Rightarrow> string \<Rightarrow> app \<Rightarrow> report \<times> app" where
  "handleAddTask now title priority s =
     (let priority =
        (if priority = PriorityHigh \<or> priority = PriorityMedium \<or> priority = PriorityLow
         then priority else defaultPriority)
      in case NextID (idGen s) of
           (tid, g) \<Rightarrow>
             (let newTask = AddTask now tid title priority
              in (Added (ID newTask), s\<lparr>tasks := tasks s @ [newTask], idGen := g\<rparr>)))"

text \<open>The loop of \<^verbatim>\<open>handleDoneTask\<close> over the slice, from the first element on.\<close>

fun handleDoneTask_loop :: "int \<Rightarrow> Task list \<Rightarrow> report \<times> Task list" where
  "handleDoneTask_loop tid [] = (NotFound tid, [])"
| "handleDoneTask_loop tid (t # ts) =
     (if ID t = tid then
        (if Done t then (AlreadyDone tid, t # ts)
         else (MarkedDone tid, t\<lparr>Done := True\<rparr> # ts))
      else (case handleDoneTask_loop tid ts of (r, ts') \<Rightarrow> (r, t # ts')))"

definition handleDoneTask :: "int \<Rightarrow> app \<Rightarrow> report \<times> app" where
  "handleDoneTask tid s =
     (case handleDoneTask_loop tid (tasks s) of (r, ts') \<Rightarrow> (r, s\<lparr>tasks := ts'\<rparr>))"

text \<open>The search loop of \<^verbatim>\<open>handleDeleteTask\<close>: \<open>None\<close> stands for \<^verbatim>\<open>foundIndex == -1\<close>.\<close>

fun foundIndex :: "int \<Rightarrow> Task list \<Rightarrow> nat option" where
  "foundIndex tid [] = None"
| "foundIndex tid (t # ts) =
     (if ID t = tid then Some 0 else map_option Suc (foundIndex tid ts))"

definition handleDeleteTask :: "int \<Rightarrow> app \<Rightarrow> report \<times> app" where
  "handleDeleteTask tid s =
     (case foundIndex tid (tasks s) of
        Some i \<Rightarrow>
          (Deleted tid,
           s\<lparr>tasks := take (length (tasks s) - 1)
                        ((tasks s)[i := tasks s ! (length (tasks s) - 1)])\<rparr>)
      | None \<Rightarrow> (NotFound tid, s))"

section \<open>The archiver (pkg/archiver/archiver.go)\<close>

record Archiver =
  archiverPath :: string

text \<open>One pass of \<^verbatim>\<open>archiveCompletedTasks\<close> over the store and the file system.\<close>

definition archiveCompletedTasks ::
  "fault \<Rightarrow> Archiver \<Rightarrow> app \<Rightarrow> filesystem \<Rightarrow> diag list \<times> error option \<times> app \<times> filesystem"
where
  "archiveCompletedTasks flt a s fs =
     (let tasksToArchive = filter Done (tasks s) in
      if length tasksToArchive = 0 then ([], None, s, fs)
      else
        (case AppendTask flt fs (archiverPath a) tasksToArchive of
           (diags, None, fs') \<Rightarrow> (diags, None, s, fs')
         | (diags, Some err, fs') \<Rightarrow> (diags, Some (ErrArchive err), s, fs')))"

section \<open>The asynchronous logger (pkg/logger/logger.go)\<close>

text \<open>
  The logger's state: the buffered channel \<^verbatim>\<open>logChan\<close> (its queued messages, its
  capacity, whether \<^verbatim>\<open>close(l.logChan)\<close> has run), the flag \<^verbatim>\<open>closed\<close>, the log file
  (the bytes appended so far, whether it has been closed) and the worker goroutine. The
  fields \<open>printed\<close> and \<open>panicked\<close> record what \<^verbatim>\<open>Log\<close> and \<^verbatim>\<open>Close\<close> print and a
  run-time panic. \<^verbatim>\<open>Log\<close> and \<^verbatim>\<open>Close\<close> hold the mutex \<^verbatim>\<open>l.mu\<close>, and the worker touches
  the channel by single channel operations, so each of the functions below is one atomic
  step of an interleaving.
\<close>

datatype console = LogAfterClose string | ChannelFull string | CloseCalled

datatype worker_state = NotStarted | Running | Stopped

record Logger =
  logChan :: "string list"
  bufferSize :: nat
  chanClosed :: bool
  closed :: bool
  fileData :: string
  fileClosed :: bool
  worker :: worker_state
  printed :: "console list"
  panicked :: bool

text \<open>\<^verbatim>\<open>NewLogger\<close> once the log file has been opened for appending; \<open>content\<close> is what the
  file holds already.\<close>

definition NewLogger :: "string \<Rightarrow> nat \<Rightarrow> Logger" where
  "NewLogger content n =
     \<lparr>logChan = [], bufferSize = n, chanClosed = False, closed = False, fileData = content,
      fileClosed = False, worker = NotStarted, printed = [], panicked = False\<rparr>"

definition Run :: "Logger \<Rightarrow> Logger" where
  "Run l = l\<lparr>worker := Running\<rparr>"

text \<open>\<^verbatim>\<open>func (l *Logger) Log(message string)\<close>. The channel is buffered (the program
  creates it with capacity 100), so the send of the select succeeds exactly when the buffer
  has room; a send on a closed channel panics.\<close>

definition Log :: "string \<Rightarrow> Logger \<Rightarrow> Logger" where
  "Log message l =
     (if closed l then l\<lparr>printed := printed l @ [LogAfterClose message]\<rparr>
      else if chanClosed l then l\<lparr>panicked := True\<rparr>
      else if length (logChan l) < bufferSize l then l\<lparr>logChan := logChan l @ [message]\<rparr>
      else l\<lparr>printed := printed l @ [ChannelFull message]\<rparr>)"

text \<open>\<^verbatim>\<open>func (l *Logger) Close()\<close>.\<close>

definition Close :: "Logger \<Rightarrow> Logger" where
  "Close l = (if closed l then l else l\<lparr>closed := True, printed := printed l @ [CloseCalled]\<rparr>)"

definition logEntry :: "Time \<Rightarrow> string \<Rightarrow> string" where
  "logEntry timestamp msg = ''['' @ Format timestamp @ ''] '' @ msg @ [CHR 0x0A]"

text \<open>The worker takes the branch \<^verbatim>\<open>case msg, ok := <-l.logChan\<close> of its select: it
  writes a queued message, or leaves the loop when the channel is closed and empty; with
  an open, empty channel the branch is not ready and nothing happens.\<close>

definition worker_recv :: "Time \<Rightarrow> Logger \<Rightarrow> Logger" where
  "worker_recv now l =
     (if worker l \<noteq> Running then l
      else
        (case logChan l of
           msg # rest \<Rightarrow> l\<lparr>logChan := rest, fileData := fileData l @ logEntry now msg\<rparr>
         | [] \<Rightarrow> if chanClosed l then l\<lparr>worker := Stopped, fileClosed := True\<rparr> else l))"

text \<open>The drain loop \<^verbatim>\<open>for msg := range l.logChan\<close>; \<open>clock k\<close> is the time read for the
  \<open>k\<close>-th drained message.\<close>

fun drain :: "(nat \<Rightarrow> Time) \<Rightarrow> nat \<Rightarrow> string list \<Rightarrow> string" where
  "drain clock k [] = []"
| "drain clock k (msg # rest) = logEntry (clock k) msg @ drain clock (Suc k) rest"

text \<open>The worker takes the branch \<^verbatim>\<open>case <-ctx.Done()\<close>: it closes the channel, writes
  what is queued, and returns, which closes the file. Closing a closed channel panics.\<close>

definition worker_cancel :: "(nat \<Rightarrow> Time) \<Rightarrow> Logger \<Rightarrow> Logger" where
  "worker_cancel clock l =
     (if worker l \<noteq> Running then l
      else if chanClosed l then l\<lparr>panicked := True\<rparr>
      else l\<lparr>chanClosed := True, logChan := [],
              fileData := fileData l @ drain clock 0 (logChan l),
              worker := Stopped, fileClosed := True\<rparr>)"

text \<open>What can happen to a logger: a producer calls \<^verbatim>\<open>Log\<close> or \<^verbatim>\<open>Close\<close>, the worker
  receives from the channel, or the worker sees the cancelled context.\<close>

datatype event = EvLog string | EvClose | EvRecv Time | EvCancel "nat \<Rightarrow> Time"

fun step :: "Logger \<Rightarrow> event \<Rightarrow> Logger" where
  "step l (EvLog message) = Log message l"
| "step l EvClose = Close l"
| "step l (EvRecv now) = worker_recv now l"
| "step l (EvCancel clock) = worker_cancel clock l"

definition run :: "event list \<Rightarrow> Logger \<Rightarrow> Logger" where
  "run evs l = foldl step l evs"

fun isCancel :: "event \<Rightarrow> bool" where
  "isCancel (EvCancel clock) = True"
| "isCancel ev = False"

section \<open>Notions used to state the properties\<close>

text \<open>The directory part of a path: everything up to and including its last slash.\<close>

definition dirPart :: "string \<Rightarrow> string" where
  "dirPart p = rev (dropWhile (\<lambda>c. c \<noteq> CHR ''/'') (rev p))"

text \<open>The logger's worker is in its loop: it runs, the channel and the file are open, and
  nothing has panicked.\<close>

definition worker_alive :: "Logger \<Rightarrow> bool" where
  "worker_alive l = (worker l = Running \<and> \<not> chanClosed l \<and> \<not> fileClosed l \<and> \<not> panicked l)"

text \<open>A run of the store: the commands the handlers execute, one after the other.\<close>

datatype command = CmdAdd Time string string | CmdDone int | CmdDelete int

fun exec :: "app \<Rightarrow> command \<Rightarrow> app" where
  "exec s (CmdAdd now title priority) = snd (handleAddTask now title priority s)"
| "exec s (CmdDone tid) = snd (handleDoneTask tid s)"
| "exec s (CmdDelete tid) = snd (handleDeleteTask tid s)"

definition execs :: "command list \<Rightarrow> app \<Rightarrow> app" where
  "execs cmds s = foldl exec s cmds"

fun isAdd :: "command \<Rightarrow> bool" where
  "isAdd (CmdAdd now title priority) = True"
| "isAdd cmd = False"

text \<open>The invariant behind the uniqueness of IDs: the IDs in the store are pairwise
  distinct and all below the generator's next value, which can still be raised \<open>k\<close> times
  without leaving the 64-bit range.\<close>

definition ids_fresh :: "nat \<Rightarrow> app \<Rightarrow> bool" where
  "ids_fresh k s =
     (distinct (map ID (tasks s))
      \<and> (\<exists>n. 1 \<le> n \<and> n + int k \<le> 2 ^ 63 \<and> nextID (idGen s) = wrap64 n
             \<and> (\<forall>t\<in>set (tasks s). ID t < n)))"

text \<open>The lines of a file: the text between line feeds; the last line need not end with
  one.\<close>

function file_lines :: "string \<Rightarrow> string list" where
  "file_lines input =
     (if input = [] then []
      else takeWhile (\<lambda>c. c \<noteq> CHR 0x0A) input
           # file_lines (drop (Suc (length (takeWhile (\<lambda>c. c \<noteq> CHR 0x0A) input))) input))"
  by pat_completeness auto
termination
  by (relation "measure length") auto

declare file_lines.simps [simp del]

text \<open>
  What the decode contract says about one line: its five fields, when it is skipped, the
  record it stands for otherwise, and the diagnostic it causes.
\<close>

definition line_fields :: "string \<Rightarrow> string list" where
  "line_fields l = SplitN l (CHR ''|'') 5"

definition line_skipped :: "string \<Rightarrow> bool" where
  "line_skipped l =
     (length (line_fields l) \<noteq> 5 \<or> Atoi (line_fields l ! 0) = None
      \<or> ParseBool (line_fields l ! 2) = None \<or> Parse (line_fields l ! 3) = None)"

definition priority_known :: "string \<Rightarrow> bool" where
  "priority_known p = (p = PriorityHigh \<or> p = PriorityMedium \<or> p = PriorityLow)"

definition line_record :: "string \<Rightarrow> Task" where
  "line_record l =
     \<lparr>CreatedAt = the (Parse (line_fields l ! 3)), Title = line_fields l ! 1,
      Priority = (if priority_known (line_fields l ! 4) then line_fields l ! 4 else PriorityMedium),
      ID = the (Atoi (line_fields l ! 0)), Done = the (ParseBool (line_fields l ! 2))\<rparr>"

definition line_diag :: "nat \<Rightarrow> string \<Rightarrow> diag" where
  "line_diag k l =
     (if length (line_fields l) \<noteq> 5 then DiagBadLine k l
      else if Atoi (line_fields l ! 0) = None then DiagBadID k (line_fields l ! 0)
      else if ParseBool (line_fields l ! 2) = None then DiagBadDone k (line_fields l ! 2)
      else if Parse (line_fields l ! 3) = None then DiagBadDate k (line_fields l ! 3)
      else DiagBadPriority k (line_fields l ! 4))"

definition line_diags :: "nat \<Rightarrow> string \<Rightarrow> diag list" where
  "line_diags k l =
     (if line_skipped l \<or> \<not> priority_known (line_fields l ! 4) then [line_diag k l] else [])"

fun decode_diags :: "nat \<Rightarrow> string list \<Rightarrow> diag list" where
  "decode_diags n [] = []"
| "decode_diags n (l # ls) = line_diags (Suc n) l @ decode_diags (Suc n) ls"

definition decode_records :: "string list \<Rightarrow> Task list" where
  "decode_records ls = map line_record (filter (\<lambda>l. \<not> line_skipped l) ls)"

text \<open>
  Valid task records: a calendar reading that exists, a 64-bit ID and one of the three
  priorities. A record is encodable when its title contains neither the separator nor a
  line feed, its year is at most 9999 and its line fits the scanner's buffer.
  Decoding keeps the calendar reading to the second and takes it as UTC.
\<close>

definition valid_Time :: "Time \<Rightarrow> bool" where
  "valid_Time t =
     (0 \<le> year t \<and> 1 \<le> month t \<and> month t \<le> 12 \<and> 1 \<le> day t
      \<and> day t \<le> daysIn (month t) (nat (year t))
      \<and> hour t < 24 \<and> minute t < 60 \<and> second t < 60 \<and> nsec t < 1000000000)"

definition atSecondUTC :: "Time \<Rightarrow> Time" where
  "atSecondUTC tm = tm\<lparr>nsec := 0, zoneOffset := 0\<rparr>"

definition decoded :: "Task \<Rightarrow> Task" where
  "decoded t = t\<lparr>CreatedAt := atSecondUTC (CreatedAt t)\<rparr>"

definition valid_Task :: "Task \<Rightarrow> bool" where
  "valid_Task t =
     (- (2 ^ 63) \<le> ID t \<and> ID t < 2 ^ 63
      \<and> (Priority t = PriorityHigh \<or> Priority t = PriorityMedium \<or> Priority t = PriorityLow)
      \<and> valid_Time (CreatedAt t))"

definition encodable :: "Task \<Rightarrow> bool" where
  "encodable t =
     (CHR ''|'' \<notin> set (Title t) \<and> CHR 0x0A \<notin> set (Title t) \<and> year (CreatedAt t) \<le> 9999
      \<and> length (taskFileFormat t) \<le> MaxScanTokenSize)"

definition task_line :: "Task \<Rightarrow> string" where
  "task_line t =
     fmt_d (ID t) @ ''|'' @ Title t @ ''|'' @ fmt_t (Done t) @ ''|''
     @ Format (CreatedAt t) @ ''|'' @ Priority t"

section \<open>Example data\<close>

definition ex_time :: Time where
  "ex_time = \<lparr>year = 2024, month = 3, day = 9, hour = 14, minute = 5, second = 7,
              nsec = 0, zoneOffset = 0\<rparr>"

definition ex_task :: "int \<Rightarrow> string \<Rightarrow> bool \<Rightarrow> string \<Rightarrow> Task" where
  "ex_task i title dn p = \<lparr>CreatedAt = ex_time, Title = title, Priority = p, ID = i, Done = dn\<rparr>"

definition ex_store :: app where
  "ex_store =
     \<lparr>tasks = [ex_task 1 ''a'' True ''high'', ex_task 2 ''b'' False ''low'',
               ex_task 3 ''c'' False ''medium''],
      idGen = \<lparr>nextID = 4\<rparr>\<rparr>"

definition ex_fs :: filesystem where
  "ex_fs = [''storage/tasks.txt'' \<mapsto> ''9|old|false|2020-01-01 00:00:00|low\<newline>'']"

definition ex_file :: string where
  "ex_file = ''10|Task 1|false|2024-03-09 14:05:07|high\<newline>5|Task 2|true|2024-03-09 14:05:07|low\<newline>15|Task 3|false|2024-03-09 14:05:07|medium\<newline>''"

definition ex_cmds :: "command list" where
  "ex_cmds = [CmdAdd ex_time ''x'' ''urgent'', CmdDelete 5, CmdDone 10, CmdAdd ex_time ''y'' ''low'']"

definition ex_dup_file :: string where
  "ex_dup_file = ''1|a|false|2024-03-09 14:05:07|high'' @ CHR 0x0A #
                 ''1|b|true|2024-03-09 14:05:07|low'' @ [CHR 0x0A]"

definition ex_big_file :: string where
  "ex_big_file = ''9223372036854775807|a|false|2024-03-09 14:05:07|high'' @ CHR 0x0A #
                 ''-9223372036854775808|b|true|2024-03-09 14:05:07|low'' @ [CHR 0x0A]"

definition ex_mixed_file :: string where
  "ex_mixed_file =
     ''1|Valid Task|false|2024-03-09 14:05:07|high'' @ CHR 0x0A #
     ''invalid_id|Task 2|true|2024-03-09 14:05:07|low'' @ CHR 0x0A #
     ''3|Task 3|not_bool|2024-03-09 14:05:07|medium'' @ CHR 0x0A #
     ''4|Task 4|false|invalid_date|high'' @ CHR 0x0A #
     ''5|Task 5|true|2024-03-09 14:05:07|invalid_priority'' @ CHR 0x0A #
     ''6|Too few parts|true'' @ CHR 0x0A #
     ''7|Valid Task 2|true|2024-03-09 14:05:07|low'' @ CHR 0x0A #
     []"

definition ex_long_file :: string where
  "ex_long_file =
     ''1|Valid Task|false|2024-03-09 14:05:07|high'' @ CHR 0x0A # replicate 65536 (CHR ''x'')"

definition ex_bar_task :: Task where
  "ex_bar_task = ex_task 1 ''a|b'' False ''high''"

section \<open>The method AddTask stores the priority verbatim\<close>

lemma AddTask_priority:
  "Priority (AddTask now i title p) \<in> {PriorityHigh, PriorityMedium, PriorityLow}"
  by (simp add: AddTask_def Let_def)

text \<open>
  Claim C10. The pointer-receiver method \<^verbatim>\<open>(*Task).AddTask\<close> sets the title to the given
  title, clears the done flag, sets the creation time to the current time and stores the
  given priority string as it is; it leaves the ID alone. With a priority outside
  high/medium/low (here \<^verbatim>\<open>urgent\<close>) the resulting priority is none of the three values,
  whereas the package-level function \<^verbatim>\<open>AddTask\<close> replaces such a priority by medium.
\<close>

theorem Task_AddTask_verbatim:
  "Title (Task_AddTask now t title priority) = title
   \<and> Done (Task_AddTask now t title priority) = False
   \<and> CreatedAt (Task_AddTask now t title priority) = now
   \<and> Priority (Task_AddTask now t title priority) = priority
   \<and> ID (Task_AddTask now t title priority) = ID t
   \<and> Priority (Task_AddTask now t title ''urgent'')
        \<notin> {PriorityHigh, PriorityMedium, PriorityLow}
   \<and> Priority (AddTask now i title ''urgent'') = PriorityMedium
   \<and> Priority (AddTask now i title priority)
        = (if priority \<in> {PriorityHigh, PriorityMedium, PriorityLow} then priority
           else PriorityMedium)"
  by (simp add: Task_AddTask_def AddTask_def Let_def PriorityHigh_def PriorityMedium_def
      PriorityLow_def)

section \<open>Marking a task done\<close>

lemma handleDoneTask_loop_length: "length (snd (handleDoneTask_loop tid ts)) = length ts"
  by (induction ts) (auto split: prod.splits)

lemma foundIndex_None: "foundIndex tid ts = None \<longleftrightarrow> tid \<notin> ID ` set ts"
  by (induction ts) auto

lemma foundIndex_Some:
  "foundIndex tid ts = Some i \<longleftrightarrow> (i < length ts \<and> ID (ts ! i) = tid \<and> (\<forall>j < i. ID (ts ! j) \<noteq> tid))"
proof (induction ts arbitrary: i)
  case Nil then show ?case by simp
next
  case (Cons t ts)
  show ?case
  proof (cases "ID t = tid")
    case True
    then show ?thesis by (cases i) auto
  next
    case False
    then show ?thesis using Cons.IH
      apply (cases i)
       apply (auto simp: nth_Cons' less_Suc_eq_0_disj)
      done
  qed
qed

lemma handleDoneTask_loop_None:
  "foundIndex tid ts = None \<Longrightarrow> handleDoneTask_loop tid ts = (NotFound tid, ts)"
  by (induction ts) (auto split: if_splits)

lemma handleDoneTask_loop_Some:
  "foundIndex tid ts = Some i \<Longrightarrow>
   handleDoneTask_loop tid ts =
     (if Done (ts ! i) then (AlreadyDone tid, ts)
      else (MarkedDone tid, ts[i := (ts ! i)\<lparr>Done := True\<rparr>]))"
  by (induction ts arbitrary: i) (auto split: if_splits)

lemma handleDoneTask_loop_fields:
  "j < length ts \<Longrightarrow>
   ID (snd (handleDoneTask_loop tid ts) ! j) = ID (ts ! j)
   \<and> Title (snd (handleDoneTask_loop tid ts) ! j) = Title (ts ! j)
   \<and> CreatedAt (snd (handleDoneTask_loop tid ts) ! j) = CreatedAt (ts ! j)
   \<and> Priority (snd (handleDoneTask_loop tid ts) ! j) = Priority (ts ! j)
   \<and> (Done (snd (handleDoneTask_loop tid ts) ! j) = (Done (ts ! j) \<or> foundIndex tid ts = Some j))"
proof (induction ts arbitrary: j)
  case Nil then show ?case by simp
next
  case (Cons t ts)
  show ?case
  proof (cases "ID t = tid")
    case True
    then show ?thesis by (cases j) auto
  next
    case False
    show ?thesis
    proof (cases j)
      case 0
      with False show ?thesis by (auto split: prod.splits)
    next
      case (Suc k)
      with Cons.prems have "k < length ts" by simp
      from Cons.IH[OF this] False Suc show ?thesis by (auto split: prod.splits)
    qed
  qed
qed

text \<open>
  Claim C5. \<^verbatim>\<open>handleDoneTask(id)\<close> changes at most the \<^verbatim>\<open>Done\<close> field of the first record
  whose ID is \<open>id\<close>, from false to true; every other field of that record (the creation
  time among them), every other record, the length and the order of the store and the ID
  generator stay as they are. When the first matching record is done already it reports
  "already done", when no record matches it reports "not found", and in both cases the
  store is unchanged.
\<close>

theorem handleDoneTask_frame:
  "(tid \<notin> ID ` set (tasks s) \<longrightarrow> handleDoneTask tid s = (NotFound tid, s))
   \<and> (\<forall>i. i < length (tasks s) \<and> ID (tasks s ! i) = tid \<and> (\<forall>j<i. ID (tasks s ! j) \<noteq> tid) \<longrightarrow>
         handleDoneTask tid s =
           (if Done (tasks s ! i) then (AlreadyDone tid, s)
            else (MarkedDone tid, s\<lparr>tasks := (tasks s)[i := (tasks s ! i)\<lparr>Done := True\<rparr>]\<rparr>)))
   \<and> length (tasks (snd (handleDoneTask tid s))) = length (tasks s)
   \<and> idGen (snd (handleDoneTask tid s)) = idGen s
   \<and> (\<forall>j<length (tasks s).
         ID (tasks (snd (handleDoneTask tid s)) ! j) = ID (tasks s ! j)
         \<and> Title (tasks (snd (handleDoneTask tid s)) ! j) = Title (tasks s ! j)
         \<and> CreatedAt (tasks (snd (handleDoneTask tid s)) ! j) = CreatedAt (tasks s ! j)
         \<and> Priority (tasks (snd (handleDoneTask tid s)) ! j) = Priority (tasks s ! j)
         \<and> (Done (tasks (snd (handleDoneTask tid s)) ! j)
              = (Done (tasks s ! j) \<or> (ID (tasks s ! j) = tid \<and> (\<forall>k<j. ID (tasks s ! k) \<noteq> tid)))))"
proof (intro conjI allI impI)
  assume "tid \<notin> ID ` set (tasks s)"
  then have "foundIndex tid (tasks s) = None" by (simp add: foundIndex_None)
  then show "handleDoneTask tid s = (NotFound tid, s)"
    by (simp add: handleDoneTask_def handleDoneTask_loop_None)
next
  fix i
  assume "i < length (tasks s) \<and> ID (tasks s ! i) = tid \<and> (\<forall>j<i. ID (tasks s ! j) \<noteq> tid)"
  then have "foundIndex tid (tasks s) = Some i" by (simp add: foundIndex_Some)
  then show "handleDoneTask tid s =
           (if Done (tasks s ! i) then (AlreadyDone tid, s)
            else (MarkedDone tid, s\<lparr>tasks := (tasks s)[i := (tasks s ! i)\<lparr>Done := True\<rparr>]\<rparr>))"
    by (simp add: handleDoneTask_def handleDoneTask_loop_Some)
next
  show "length (tasks (snd (handleDoneTask tid s))) = length (tasks s)"
    using handleDoneTask_loop_length[of tid "tasks s"]
    by (auto simp: handleDoneTask_def split: prod.splits)
next
  show "idGen (snd (handleDoneTask tid s)) = idGen s"
    by (simp add: handleDoneTask_def split: prod.splits)
next
  fix j assume j: "j < length (tasks s)"
  have eq: "tasks (snd (handleDoneTask tid s)) = snd (handleDoneTask_loop tid (tasks s))"
    by (simp add: handleDoneTask_def split: prod.splits)
  from handleDoneTask_loop_fields[OF j, of tid] j
  show "ID (tasks (snd (handleDoneTask tid s)) ! j) = ID (tasks s ! j)"
    and "Title (tasks (snd (handleDoneTask tid s)) ! j) = Title (tasks s ! j)"
    and "CreatedAt (tasks (snd (handleDoneTask tid s)) ! j) = CreatedAt (tasks s ! j)"
    and "Priority (tasks (snd (handleDoneTask tid s)) ! j) = Priority (tasks s ! j)"
    and "Done (tasks (snd (handleDoneTask tid s)) ! j)
              = (Done (tasks s ! j) \<or> (ID (tasks s ! j) = tid \<and> (\<forall>k<j. ID (tasks s ! k) \<noteq> tid)))"
    unfolding eq by (simp_all add: foundIndex_Some)
qed

theorem handleDoneTask_frame_witness:
  "handleDoneTask 2 ex_store =
     (MarkedDone 2, ex_store\<lparr>tasks := [ex_task 1 ''a'' True ''high'', ex_task 2 ''b'' True ''low'',
       ex_task 3 ''c'' False ''medium'']\<rparr>)
   \<and> handleDoneTask 1 ex_store = (AlreadyDone 1, ex_store)
   \<and> handleDoneTask 7 ex_store = (NotFound 7, ex_store)"
  using handleDoneTask_frame[of 2 ex_store, THEN conjunct2, THEN conjunct1, THEN spec, of 1]
    handleDoneTask_frame[of 1 ex_store, THEN conjunct2, THEN conjunct1, THEN spec, of 0]
    handleDoneTask_frame[of 7 ex_store, THEN conjunct1]
  by (simp add: ex_store_def ex_task_def)

section \<open>Deleting a task\<close>

lemma mset_swap_shrink:
  assumes "i < length xs"
  shows "mset (take (length xs - 1) (xs[i := xs ! (length xs - 1)])) = mset xs - {# xs ! i #}"
proof -
  from assms have ne: "xs \<noteq> []" by auto
  then obtain ys l where xs: "xs = ys @ [l]" by (metis rev_exhaust)
  show ?thesis
  proof (cases "i = length ys")
    case True
    then show ?thesis by (simp add: xs)
  next
    case False
    with assms xs have i: "i < length ys" by simp
    then show ?thesis
      by (simp add: xs nth_append list_update_append mset_update)
  qed
qed

lemma nth_swap_shrink:
  assumes "i < length xs" "j < length xs - 1"
  shows "take (length xs - 1) (xs[i := xs ! (length xs - 1)]) ! j
           = (if j = i then xs ! (length xs - 1) else xs ! j)"
  using assms by (simp add: nth_list_update)

text \<open>
  Claim C6. When some record has the given ID, \<^verbatim>\<open>handleDeleteTask(id)\<close> removes the first
  such record: it copies the last element of the slice into that position and shortens
  the slice by one. Every other record keeps its contents (the store loses exactly that
  one record) and the last record moves into the freed position, so the order is not
  kept. When no record matches it reports "not found" and the store is unchanged.
\<close>

theorem handleDeleteTask_swap_with_last:
  "(tid \<notin> ID ` set (tasks s) \<longrightarrow> handleDeleteTask tid s = (NotFound tid, s))
   \<and> (\<forall>i. i < length (tasks s) \<and> ID (tasks s ! i) = tid \<and> (\<forall>j<i. ID (tasks s ! j) \<noteq> tid) \<longrightarrow>
         handleDeleteTask tid s
           = (Deleted tid, s\<lparr>tasks := butlast ((tasks s)[i := last (tasks s)])\<rparr>)
         \<and> length (tasks (snd (handleDeleteTask tid s))) = length (tasks s) - 1
         \<and> (\<forall>j<length (tasks s) - 1.
               tasks (snd (handleDeleteTask tid s)) ! j
                 = (if j = i then last (tasks s) else tasks s ! j))
         \<and> mset (tasks (snd (handleDeleteTask tid s))) = mset (tasks s) - {# tasks s ! i #})
   \<and> idGen (snd (handleDeleteTask tid s)) = idGen s"
proof (intro conjI allI impI)
  assume "tid \<notin> ID ` set (tasks s)"
  then have "foundIndex tid (tasks s) = None" by (simp add: foundIndex_None)
  then show "handleDeleteTask tid s = (NotFound tid, s)"
    by (simp add: handleDeleteTask_def)
next
  show "idGen (snd (handleDeleteTask tid s)) = idGen s"
    by (simp add: handleDeleteTask_def split: option.splits)
next
  fix i
  assume a: "i < length (tasks s) \<and> ID (tasks s ! i) = tid \<and> (\<forall>j<i. ID (tasks s ! j) \<noteq> tid)"
  then have f: "foundIndex tid (tasks s) = Some i" by (simp add: foundIndex_Some)
  from a have ne: "tasks s \<noteq> []" by auto
  have r: "handleDeleteTask tid s
      = (Deleted tid, s\<lparr>tasks := take (length (tasks s) - 1)
                        ((tasks s)[i := tasks s ! (length (tasks s) - 1)])\<rparr>)"
    using f by (simp add: handleDeleteTask_def)
  show "handleDeleteTask tid s
           = (Deleted tid, s\<lparr>tasks := butlast ((tasks s)[i := last (tasks s)])\<rparr>)"
    using r ne by (simp add: butlast_conv_take last_conv_nth)
  show "length (tasks (snd (handleDeleteTask tid s))) = length (tasks s) - 1"
    using r by simp
  show "mset (tasks (snd (handleDeleteTask tid s))) = mset (tasks s) - {# tasks s ! i #}"
    using r a mset_swap_shrink[of i "tasks s"] by simp
  {
    fix j assume "j < length (tasks s) - 1"
    then show "tasks (snd (handleDeleteTask tid s)) ! j
                 = (if j = i then last (tasks s) else tasks s ! j)"
      using r a ne nth_swap_shrink[of i "tasks s" j] by (simp add: last_conv_nth)
  }
qed

theorem handleDeleteTask_swap_with_last_witness:
  "handleDeleteTask 1 ex_store =
     (Deleted 1, ex_store\<lparr>tasks := [ex_task 3 ''c'' False ''medium'', ex_task 2 ''b'' False ''low'']\<rparr>)
   \<and> handleDeleteTask 7 ex_store = (NotFound 7, ex_store)"
  using handleDeleteTask_swap_with_last[of 1 ex_store, THEN conjunct2, THEN conjunct1, THEN spec, of 0]
    handleDeleteTask_swap_with_last[of 7 ex_store, THEN conjunct1]
  by (simp add: ex_store_def ex_task_def)

section \<open>Saving the whole store\<close>

lemma SaveTasks_write_NoFault:
  "\<forall>k n. flt \<noteq> WriteFault k n \<Longrightarrow>
   SaveTasks_write flt i ts buf = Inr (buf @ concat (map taskFileFormat ts))"
  by (induction ts arbitrary: i buf) (auto simp: writeFails_def split: fault.splits)

lemma SaveTasks_write_late:
  "i + length ts \<le> k \<Longrightarrow>
   SaveTasks_write (WriteFault k n) i ts buf = Inr (buf @ concat (map taskFileFormat ts))"
  by (induction ts arbitrary: i buf) (auto simp: writeFails_def)

lemma SaveTasks_write_fails:
  "i \<le> k \<Longrightarrow> k < i + length ts \<Longrightarrow>
   SaveTasks_write (WriteFault k n) i ts buf = Inl (ID (ts ! (k - i)))"
proof (induction ts arbitrary: i buf)
  case Nil then show ?case by simp
next
  case (Cons t ts)
  show ?case
  proof (cases "k = i")
    case True then show ?thesis by (simp add: writeFails_def)
  next
    case False
    with Cons.prems have "Suc i \<le> k" "k < Suc i + length ts" by auto
    from Cons.IH[OF this] False Cons.prems show ?thesis
      by (simp add: writeFails_def Suc_diff_le)
  qed
qed

text \<open>
  Claim C3. \<^verbatim>\<open>SaveTasks\<close> writes every record to the temporary file \<^verbatim>\<open>filePath + ".tmp"\<close>,
  which lies in the directory of the target, flushes and closes it, and renames it over
  the target. When a write, the flush, the close or the rename fails it removes the
  temporary file and returns an error, and the target holds what it held before. Whatever
  happens, the target ends up either with its old contents or with the complete encoding
  of all records, never with a part of it, and no other file is touched.
\<close>

theorem SaveTasks_atomic:
  "dirPart (filePath @ ''.tmp'') = dirPart filePath
   \<and> filePath @ ''.tmp'' \<noteq> filePath
   \<and> (flt = NoFault \<longrightarrow>
        SaveTasks flt fs filePath ts
          = (None, (fs(filePath \<mapsto> concat (map taskFileFormat ts)))(filePath @ ''.tmp'' := None)))
   \<and> (\<forall>k n. flt = WriteFault k n \<and> k < length ts \<longrightarrow>
        SaveTasks flt fs filePath ts
          = (Some (ErrWriteTask (ID (ts ! k))), fs(filePath @ ''.tmp'' := None)))
   \<and> (\<forall>n. flt = FlushFault n \<longrightarrow>
        SaveTasks flt fs filePath ts = (Some ErrFlush, fs(filePath @ ''.tmp'' := None)))
   \<and> (flt = CloseFault \<longrightarrow>
        SaveTasks flt fs filePath ts = (Some ErrCloseTemp, fs(filePath @ ''.tmp'' := None)))
   \<and> (flt = RenameFault \<longrightarrow>
        SaveTasks flt fs filePath ts = (Some ErrRename, fs(filePath @ ''.tmp'' := None)))
   \<and> (flt = OpenFault \<longrightarrow> SaveTasks flt fs filePath ts = (Some ErrCreateTemp, fs))
   \<and> (fst (SaveTasks flt fs filePath ts) \<noteq> None \<longrightarrow>
        snd (SaveTasks flt fs filePath ts) filePath = fs filePath)
   \<and> (fst (SaveTasks flt fs filePath ts) = None \<longrightarrow>
        snd (SaveTasks flt fs filePath ts) filePath = Some (concat (map taskFileFormat ts)))
   \<and> (\<forall>p. p \<noteq> filePath \<and> p \<noteq> filePath @ ''.tmp'' \<longrightarrow>
        snd (SaveTasks flt fs filePath ts) p = fs p)"
proof -
  have ne: "filePath @ ''.tmp'' \<noteq> filePath" by simp
  have d: "dirPart (filePath @ ''.tmp'') = dirPart filePath" by (simp add: dirPart_def)
  have nf: "flt = NoFault \<Longrightarrow> SaveTasks flt fs filePath ts
          = (None, (fs(filePath \<mapsto> concat (map taskFileFormat ts)))(filePath @ ''.tmp'' := None))"
    by (auto simp: SaveTasks_def Let_def SaveTasks_write_NoFault fun_upd_twist)
  have wf: "\<And>k n. flt = WriteFault k n \<Longrightarrow> k < length ts \<Longrightarrow>
        SaveTasks flt fs filePath ts
          = (Some (ErrWriteTask (ID (ts ! k))), fs(filePath @ ''.tmp'' := None))"
    by (simp add: SaveTasks_def Let_def SaveTasks_write_fails)
  have wl: "\<And>k n. flt = WriteFault k n \<Longrightarrow> length ts \<le> k \<Longrightarrow>
        SaveTasks flt fs filePath ts
          = (None, (fs(filePath \<mapsto> concat (map taskFileFormat ts)))(filePath @ ''.tmp'' := None))"
    by (auto simp: SaveTasks_def Let_def SaveTasks_write_late fun_upd_twist)
  have rf: "\<And>n. flt = ReadFault n \<Longrightarrow>
        SaveTasks flt fs filePath ts
          = (None, (fs(filePath \<mapsto> concat (map taskFileFormat ts)))(filePath @ ''.tmp'' := None))"
    by (auto simp: SaveTasks_def Let_def SaveTasks_write_NoFault fun_upd_twist)
  have ff: "\<And>n. flt = FlushFault n \<Longrightarrow>
        SaveTasks flt fs filePath ts = (Some ErrFlush, fs(filePath @ ''.tmp'' := None))"
    by (simp add: SaveTasks_def Let_def SaveTasks_write_NoFault)
  have cf: "flt = CloseFault \<Longrightarrow>
        SaveTasks flt fs filePath ts = (Some ErrCloseTemp, fs(filePath @ ''.tmp'' := None))"
    by (simp add: SaveTasks_def Let_def SaveTasks_write_NoFault)
  have rn: "flt = RenameFault \<Longrightarrow>
        SaveTasks flt fs filePath ts = (Some ErrRename, fs(filePath @ ''.tmp'' := None))"
    by (simp add: SaveTasks_def Let_def SaveTasks_write_NoFault)
  have op: "flt = OpenFault \<Longrightarrow> SaveTasks flt fs filePath ts = (Some ErrCreateTemp, fs)"
    by (simp add: SaveTasks_def Let_def)
  have alt: "(\<exists>e. SaveTasks flt fs filePath ts = (Some e, fs(filePath @ ''.tmp'' := None)))
      \<or> SaveTasks flt fs filePath ts = (Some ErrCreateTemp, fs)
      \<or> SaveTasks flt fs filePath ts
          = (None, (fs(filePath \<mapsto> concat (map taskFileFormat ts)))(filePath @ ''.tmp'' := None))"
  proof (cases flt)
    case (WriteFault k n)
    then show ?thesis using wf[of k n] wl[of k n] by (cases "k < length ts") auto
  qed (use nf rf ff cf rn op in auto)
  have e1: "fst (SaveTasks flt fs filePath ts) \<noteq> None \<Longrightarrow>
        snd (SaveTasks flt fs filePath ts) filePath = fs filePath"
    using alt ne by auto
  have e2: "fst (SaveTasks flt fs filePath ts) = None \<Longrightarrow>
        snd (SaveTasks flt fs filePath ts) filePath = Some (concat (map taskFileFormat ts))"
    using alt ne by auto
  have e3: "\<And>p. p \<noteq> filePath \<Longrightarrow> p \<noteq> filePath @ ''.tmp'' \<Longrightarrow>
        snd (SaveTasks flt fs filePath ts) p = fs p"
    using alt by auto
  show ?thesis
    using ne d nf wf ff cf rn op e1 e2 e3 by blast
qed

theorem SaveTasks_atomic_witness:
  "SaveTasks (FlushFault 3) ex_fs ''storage/tasks.txt'' (tasks ex_store)
     = (Some ErrFlush, ex_fs(''storage/tasks.txt.tmp'' := None))
   \<and> SaveTasks (WriteFault 1 0) ex_fs ''storage/tasks.txt'' (tasks ex_store)
     = (Some (ErrWriteTask 2), ex_fs(''storage/tasks.txt.tmp'' := None))
   \<and> SaveTasks CloseFault ex_fs ''storage/tasks.txt'' (tasks ex_store)
     = (Some ErrCloseTemp, ex_fs(''storage/tasks.txt.tmp'' := None))
   \<and> snd (SaveTasks RenameFault ex_fs ''storage/tasks.txt'' (tasks ex_store)) ''storage/tasks.txt''
     = Some ''9|old|false|2020-01-01 00:00:00|low\<newline>''
   \<and> snd (SaveTasks NoFault ex_fs ''storage/tasks.txt'' (tasks ex_store)) ''storage/tasks.txt''
     = Some (concat (map taskFileFormat (tasks ex_store)))"
  using SaveTasks_atomic[of "''storage/tasks.txt''" "FlushFault 3" ex_fs "tasks ex_store"]
    SaveTasks_atomic[of "''storage/tasks.txt''" "WriteFault 1 0" ex_fs "tasks ex_store"]
    SaveTasks_atomic[of "''storage/tasks.txt''" CloseFault ex_fs "tasks ex_store"]
    SaveTasks_atomic[of "''storage/tasks.txt''" RenameFault ex_fs "tasks ex_store"]
    SaveTasks_atomic[of "''storage/tasks.txt''" NoFault ex_fs "tasks ex_store"]
  by (simp add: ex_store_def ex_task_def ex_fs_def)

section \<open>One pass of the archiver\<close>

lemma AppendTask_write_no_fault:
  "\<forall>k n. flt \<noteq> WriteFault k n \<Longrightarrow>
   AppendTask_write flt i ts buf False diags = (buf @ concat (map taskFileFormat ts), False, diags)"
  by (induction ts arbitrary: i buf) (auto simp: writeFails_def split: fault.splits)

lemma AppendTask_NoFault:
  "AppendTask NoFault fs filePath ts =
     ([], None, fs(filePath \<mapsto> (case fs filePath of None \<Rightarrow> [] | Some content \<Rightarrow> content)
                               @ concat (map taskFileFormat ts)))"
  by (simp add: AppendTask_def AppendTask_write_no_fault)

lemma AppendTask_other_files:
  "p \<noteq> filePath \<Longrightarrow> snd (snd (AppendTask flt fs filePath ts)) p = fs p"
  by (cases flt) (auto simp: AppendTask_def Let_def split: prod.splits)

lemma AppendTask_write_failed_buf:
  "fst (AppendTask_write flt i ts buf True diags) = buf"
  by (induction ts arbitrary: i diags) auto

lemma AppendTask_write_buf:
  "\<exists>m. fst (AppendTask_write flt i ts buf False diags) = buf @ concat (map taskFileFormat (take m ts))"
proof (induction ts arbitrary: i buf diags)
  case Nil then show ?case by simp
next
  case (Cons t ts)
  show ?case
  proof (cases "writeFails flt i")
    case True
    then have "fst (AppendTask_write flt i (t # ts) buf False diags)
        = buf @ concat (map taskFileFormat (take 1 (t # ts)))"
      by (simp add: AppendTask_write_failed_buf)
    then show ?thesis by blast
  next
    case False
    from Cons.IH[of "Suc i" "buf @ taskFileFormat t" diags]
    obtain m where "fst (AppendTask_write flt (Suc i) ts (buf @ taskFileFormat t) False diags)
       = (buf @ taskFileFormat t) @ concat (map taskFileFormat (take m ts))" by blast
    with False have "fst (AppendTask_write flt i (t # ts) buf False diags)
        = buf @ concat (map taskFileFormat (take (Suc m) (t # ts)))" by simp
    then show ?thesis by blast
  qed
qed

lemma take_concat_prefix:
  "\<exists>n'. take n (concat (map f (take m xs))) = take n' (concat (map f xs))"
proof -
  have "concat (map f xs) = concat (map f (take m xs)) @ concat (map f (drop m xs))"
    by (metis append_take_drop_id concat_append map_append)
  then have "take n (concat (map f (take m xs)))
      = take (min n (length (concat (map f (take m xs))))) (concat (map f xs))"
    by (simp add: min_def)
  then show ?thesis by blast
qed

lemma AppendTask_appends_prefix:
  "\<exists>n. snd (snd (AppendTask flt fs filePath ts)) = fs
     \<or> snd (snd (AppendTask flt fs filePath ts))
         = fs(filePath \<mapsto> (case fs filePath of None \<Rightarrow> [] | Some content \<Rightarrow> content)
                             @ take n (concat (map taskFileFormat ts)))"
proof -
  obtain m where m: "fst (AppendTask_write flt 0 ts [] False [])
      = concat (map taskFileFormat (take m ts))"
    using AppendTask_write_buf[of flt 0 ts "[]" "[]"] by auto
  obtain buf failed diags where w: "AppendTask_write flt 0 ts [] False [] = (buf, failed, diags)"
    by (metis prod_cases3)
  with m have buf: "buf = concat (map taskFileFormat (take m ts))" by simp
  have full: "\<exists>n. buf = take n (concat (map taskFileFormat ts))"
    using take_concat_prefix[of "length buf" taskFileFormat m ts] buf by auto
  have part: "\<And>k. \<exists>n. take k buf = take n (concat (map taskFileFormat ts))"
    using take_concat_prefix[of _ taskFileFormat m ts] buf by auto
  show ?thesis
  proof (cases flt)
    case OpenFault
    then show ?thesis by (simp add: AppendTask_def)
  next
    case (WriteFault k n)
    then show ?thesis using w full part[of n] by (cases failed) (auto simp: AppendTask_def)
  next
    case (FlushFault n)
    then show ?thesis using w part[of n] by (auto simp: AppendTask_def)
  qed (use w full in \<open>auto simp: AppendTask_def\<close>)
qed

text \<open>
  Claim C7. One pass of \<^verbatim>\<open>archiveCompletedTasks\<close> leaves the live task list as it is. When
  no record is done it appends nothing: no file changes and no error is returned. When
  some record is done and no system call fails, the archive file afterwards is its old
  contents followed by the lines of exactly the done records, in store order. Under any
  failure the archive file still only grows by an initial part of those lines, and no
  other file changes.
\<close>

theorem archiveCompletedTasks_frame:
  "fst (snd (snd (archiveCompletedTasks flt a s fs))) = s
   \<and> (filter Done (tasks s) = [] \<longrightarrow> archiveCompletedTasks flt a s fs = ([], None, s, fs))
   \<and> (filter Done (tasks s) \<noteq> [] \<and> flt = NoFault \<longrightarrow>
        archiveCompletedTasks flt a s fs =
          ([], None, s,
           fs(archiverPath a \<mapsto>
                (case fs (archiverPath a) of None \<Rightarrow> [] | Some content \<Rightarrow> content)
                @ concat (map taskFileFormat (filter Done (tasks s))))))
   \<and> (\<forall>p. p \<noteq> archiverPath a \<longrightarrow> snd (snd (snd (archiveCompletedTasks flt a s fs))) p = fs p)
   \<and> (\<exists>n. snd (snd (snd (archiveCompletedTasks flt a s fs))) = fs
          \<or> snd (snd (snd (archiveCompletedTasks flt a s fs)))
              = fs(archiverPath a \<mapsto>
                     (case fs (archiverPath a) of None \<Rightarrow> [] | Some content \<Rightarrow> content)
                     @ take n (concat (map taskFileFormat (filter Done (tasks s))))))"
proof (intro conjI allI impI)
  show "fst (snd (snd (archiveCompletedTasks flt a s fs))) = s"
    by (simp add: archiveCompletedTasks_def Let_def split: prod.splits option.splits)
next
  assume "filter Done (tasks s) = []"
  then show "archiveCompletedTasks flt a s fs = ([], None, s, fs)"
    by (simp add: archiveCompletedTasks_def)
next
  assume "filter Done (tasks s) \<noteq> [] \<and> flt = NoFault"
  then show "archiveCompletedTasks flt a s fs =
          ([], None, s,
           fs(archiverPath a \<mapsto>
                (case fs (archiverPath a) of None \<Rightarrow> [] | Some content \<Rightarrow> content)
                @ concat (map taskFileFormat (filter Done (tasks s)))))"
    by (simp add: archiveCompletedTasks_def AppendTask_NoFault)
next
  fix p assume "p \<noteq> archiverPath a"
  then show "snd (snd (snd (archiveCompletedTasks flt a s fs))) p = fs p"
    using AppendTask_other_files[of p "archiverPath a" flt fs "filter Done (tasks s)"]
    by (auto simp: archiveCompletedTasks_def Let_def split: prod.splits option.splits)
next
  have "snd (snd (snd (archiveCompletedTasks flt a s fs))) = fs
      \<or> snd (snd (snd (archiveCompletedTasks flt a s fs)))
          = snd (snd (AppendTask flt fs (archiverPath a) (filter Done (tasks s))))"
    by (auto simp: archiveCompletedTasks_def Let_def split: prod.splits option.splits)
  then show "\<exists>n. snd (snd (snd (archiveCompletedTasks flt a s fs))) = fs
          \<or> snd (snd (snd (archiveCompletedTasks flt a s fs)))
              = fs(archiverPath a \<mapsto>
                     (case fs (archiverPath a) of None \<Rightarrow> [] | Some content \<Rightarrow> content)
                     @ take n (concat (map taskFileFormat (filter Done (tasks s)))))"
    using AppendTask_appends_prefix[of flt fs "archiverPath a" "filter Done (tasks s)"]
    by auto
qed

lemma ex_line: "taskFileFormat (ex_task 1 ''a'' True ''high'') = ''1|a|true|2024-03-09 14:05:07|high\<newline>''"
  by code_simp

theorem archiveCompletedTasks_frame_witness:
  "archiveCompletedTasks NoFault \<lparr>archiverPath = ''storage/archive.txt''\<rparr> ex_store ex_fs
     = ([], None, ex_store,
        ex_fs(''storage/archive.txt'' \<mapsto> ''1|a|true|2024-03-09 14:05:07|high\<newline>''))
   \<and> archiveCompletedTasks NoFault \<lparr>archiverPath = ''storage/archive.txt''\<rparr>
        (ex_store\<lparr>tasks := [ex_task 2 ''b'' False ''low'']\<rparr>) ex_fs
     = ([], None, ex_store\<lparr>tasks := [ex_task 2 ''b'' False ''low'']\<rparr>, ex_fs)"
  using archiveCompletedTasks_frame[of NoFault "\<lparr>archiverPath = ''storage/archive.txt''\<rparr>" ex_store ex_fs]
    archiveCompletedTasks_frame[of NoFault "\<lparr>archiverPath = ''storage/archive.txt''\<rparr>"
      "ex_store\<lparr>tasks := [ex_task 2 ''b'' False ''low'']\<rparr>" ex_fs] ex_line
  by (simp add: ex_store_def ex_fs_def) (simp add: ex_task_def)

section \<open>Closing the logger\<close>

lemma step_closed: "closed l \<Longrightarrow> closed (step l ev)"
  by (cases ev)
     (auto simp: Log_def Close_def worker_recv_def worker_cancel_def split: list.splits)

lemma run_closed: "closed l \<Longrightarrow> closed (run evs l)"
  unfolding run_def by (induction evs arbitrary: l) (auto simp: step_closed)

lemma step_alive: "worker_alive l \<Longrightarrow> \<not> isCancel ev \<Longrightarrow> worker_alive (step l ev)"
  by (cases ev)
     (auto simp: worker_alive_def Log_def Close_def worker_recv_def split: list.splits)

lemma run_alive: "worker_alive l \<Longrightarrow> \<not> list_ex isCancel evs \<Longrightarrow> worker_alive (run evs l)"
  unfolding run_def by (induction evs arbitrary: l) (auto simp: step_alive)

text \<open>
  Claim C8. \<^verbatim>\<open>Logger.Close\<close> is idempotent. Once the flag \<^verbatim>\<open>closed\<close> is set it stays set
  whatever happens next, and every later \<^verbatim>\<open>Log(message)\<close> only prints a diagnostic: the
  message is not put on the channel. \<^verbatim>\<open>Close\<close> changes nothing but the flag (and prints
  one line): the channel, the file and the worker are as before. From a freshly started
  logger, any sequence of \<^verbatim>\<open>Log\<close> calls, \<^verbatim>\<open>Close\<close> calls and receives by the worker that
  contains no cancellation leaves the worker running with the channel and the file open;
  the cancellation branch is what closes the channel, drains it and stops the worker.
\<close>

theorem Logger_Close_semantics:
  "Close (Close l) = Close l
   \<and> closed (Close l)
   \<and> (closed l \<longrightarrow> closed (run evs l)
                  \<and> Log message l = l\<lparr>printed := printed l @ [LogAfterClose message]\<rparr>
                  \<and> logChan (Log message l) = logChan l)
   \<and> logChan (Close l) = logChan l
   \<and> bufferSize (Close l) = bufferSize l
   \<and> chanClosed (Close l) = chanClosed l
   \<and> fileData (Close l) = fileData l
   \<and> fileClosed (Close l) = fileClosed l
   \<and> worker (Close l) = worker l
   \<and> panicked (Close l) = panicked l
   \<and> (\<not> list_ex isCancel evs \<longrightarrow>
        worker (run evs (Run (NewLogger content n))) = Running
        \<and> \<not> chanClosed (run evs (Run (NewLogger content n)))
        \<and> \<not> fileClosed (run evs (Run (NewLogger content n)))
        \<and> \<not> panicked (run evs (Run (NewLogger content n))))
   \<and> (worker l = Running \<and> \<not> chanClosed l \<longrightarrow>
        worker (worker_cancel clock l) = Stopped
        \<and> chanClosed (worker_cancel clock l)
        \<and> fileClosed (worker_cancel clock l)
        \<and> logChan (worker_cancel clock l) = []
        \<and> closed (worker_cancel clock l) = closed l)"
proof -
  have alive0: "worker_alive (Run (NewLogger content n))"
    by (simp add: worker_alive_def Run_def NewLogger_def)
  have "\<not> list_ex isCancel evs \<Longrightarrow> worker_alive (run evs (Run (NewLogger content n)))"
    using run_alive[OF alive0] .
  then show ?thesis
    by (auto simp: Close_def Log_def run_closed worker_alive_def worker_cancel_def)
qed

theorem Logger_Close_semantics_witness:
  "run [EvLog ''a'', EvClose, EvLog ''b'', EvRecv ex_time, EvClose, EvLog ''c'']
       (Run (NewLogger [] 2))
     = \<lparr>logChan = [], bufferSize = 2, chanClosed = False, closed = True,
        fileData = logEntry ex_time ''a'', fileClosed = False, worker = Running,
        printed = [CloseCalled, LogAfterClose ''b'', LogAfterClose ''c''], panicked = False\<rparr>
   \<and> worker (run [EvLog ''a'', EvClose, EvLog ''b'', EvRecv ex_time, EvClose, EvLog ''c'']
                (Run (NewLogger [] 2))) = Running
   \<and> Log ''d'' (Close (Run (NewLogger [] 2)))
       = (Close (Run (NewLogger [] 2)))
           \<lparr>printed := printed (Close (Run (NewLogger [] 2))) @ [LogAfterClose ''d'']\<rparr>"
  using Logger_Close_semantics[where l = "Close (Run (NewLogger [] 2))" and message = "''d''"
      and evs = "[EvLog ''a'', EvClose, EvLog ''b'', EvRecv ex_time, EvClose, EvLog ''c'']"
      and content = "[]" and n = 2]
  by (simp add: run_def Log_def Close_def worker_recv_def Run_def NewLogger_def)

section \<open>Scanning a file line by line\<close>

lemma takeWhile_line: "c \<notin> set line \<Longrightarrow> takeWhile (\<lambda>x. x \<noteq> c) (line @ c # rest) = line"
  by (induction line) auto

lemma Scan_Nil: "Scan [] = ScanEOF"
  by (simp add: Scan_def)

lemma Scan_line:
  assumes "CHR 0x0A \<notin> set line" "length line < MaxScanTokenSize"
  shows "Scan (line @ CHR 0x0A # rest) = ScanToken (dropCR line) rest"
  using assms by (simp add: Scan_def takeWhile_line Let_def)

lemma Scan_too_long:
  assumes "CHR 0x0A \<notin> set line" "MaxScanTokenSize \<le> length line"
  shows "Scan line = ScanTooLong"
proof -
  from assms(2) have ne: "line \<noteq> []" by (auto simp: MaxScanTokenSize_def)
  have tw: "takeWhile (\<lambda>c. c \<noteq> CHR 0x0A) line = line"
    using assms(1) by (induction line) auto
  show ?thesis using ne assms(2) by (simp add: Scan_def Let_def tw)
qed

lemma LoadTasks_loop_Nil: "LoadTasks_loop [] n ts m diags = (diags, Some (ts, m))"
  by (simp add: LoadTasks_loop.simps[of "[]"] Scan_Nil)

lemma LoadTasks_loop_line:
  assumes "CHR 0x0A \<notin> set line" "length line < MaxScanTokenSize"
  shows "LoadTasks_loop (line @ CHR 0x0A # rest) n ts m diags =
     (case LoadTasks_line (Suc n) (dropCR line) of
        Skip d \<Rightarrow> LoadTasks_loop rest (Suc n) ts m (diags @ [d])
      | Keep t ds \<Rightarrow>
          LoadTasks_loop rest (Suc n) (ts @ [t]) (if ID t > m then ID t else m) (diags @ ds))"
  by (subst LoadTasks_loop.simps) (simp add: Scan_line[OF assms])

lemma LoadTasks_loop_too_long:
  assumes "CHR 0x0A \<notin> set line" "MaxScanTokenSize \<le> length line"
  shows "LoadTasks_loop line n ts m diags = (diags, None)"
  by (subst LoadTasks_loop.simps) (simp add: Scan_too_long[OF assms])

lemma LoadTasks_content:
  "LoadTasks NoFault [p \<mapsto> content] p =
     (case LoadTasks_loop content 0 [] 0 [] of
        (diags, None) \<Rightarrow> (diags, Inl ErrRead)
      | (diags, Some (ts, maxID)) \<Rightarrow> (diags, Inr (ts, maxID)))"
  by (simp add: LoadTasks_def)


section \<open>What LoadTasks returns\<close>

lemma Max_insert0_append:
  "Max (insert 0 (ID ` set (ts @ [t])))
     = (if ID t > Max (insert 0 (ID ` set ts)) then ID t else Max (insert (0::int) (ID ` set ts)))"
proof -
  have "Max (insert 0 (ID ` set (ts @ [t]))) = Max (insert (ID t) (insert 0 (ID ` set ts)))"
    by (simp add: insert_commute)
  also have "\<dots> = max (ID t) (Max (insert 0 (ID ` set ts)))"
    by (rule Max_insert) auto
  finally show ?thesis unfolding max_def by (simp only: not_less [symmetric] if_not_P if_P split: if_splits) auto
qed

lemma LoadTasks_loop_maxID:
  "LoadTasks_loop input n ts m diags = (d, Some (ts', m')) \<Longrightarrow>
   m = Max (insert 0 (ID ` set ts)) \<Longrightarrow> m' = Max (insert 0 (ID ` set ts'))"
proof (induction input n ts m diags rule: LoadTasks_loop.induct)
  case (1 input lineNumber ts maxID diags)
  show ?case
  proof (cases "Scan input")
    case (ScanToken line rest)
    show ?thesis
    proof (cases "LoadTasks_line (Suc lineNumber) line")
      case (Skip dg)
      with ScanToken "1.prems"(1) have
        "LoadTasks_loop rest (Suc lineNumber) ts maxID (diags @ [dg]) = (d, Some (ts', m'))"
        by (simp add: LoadTasks_loop.simps[of input])
      from "1.IH"(1)[OF ScanToken Skip this "1.prems"(2)] show ?thesis .
    next
      case (Keep t ds)
      with ScanToken "1.prems"(1) have
        "LoadTasks_loop rest (Suc lineNumber) (ts @ [t])
           (if ID t > maxID then ID t else maxID) (diags @ ds) = (d, Some (ts', m'))"
        by (simp add: LoadTasks_loop.simps[of input])
      moreover have "(if ID t > maxID then ID t else maxID) = Max (insert 0 (ID ` set (ts @ [t])))"
        using "1.prems"(2) by (simp only: Max_insert0_append)
      ultimately show ?thesis using "1.IH"(2)[OF ScanToken Keep] by blast
    qed
  next
    case ScanEOF
    with "1.prems"(1) have "ts' = ts" "m' = maxID" by (simp_all add: LoadTasks_loop.simps[of input])
    with "1.prems"(2) show ?thesis by (simp only:)
  next
    case ScanTooLong
    with "1.prems"(1) show ?thesis by (simp add: LoadTasks_loop.simps[of input])
  qed
qed

lemma ex_file_lines:
  "ex_file = ''10|Task 1|false|2024-03-09 14:05:07|high'' @ CHR 0x0A #
     ''5|Task 2|true|2024-03-09 14:05:07|low'' @ CHR 0x0A #
     ''15|Task 3|false|2024-03-09 14:05:07|medium'' @ CHR 0x0A # []"
  by (simp add: ex_file_def)

lemma ex_file_line1:
  "LoadTasks_line (Suc 0) (dropCR ''10|Task 1|false|2024-03-09 14:05:07|high'')
     = Keep (ex_task 10 ''Task 1'' False ''high'') []"
  by code_simp

lemma ex_file_line2:
  "LoadTasks_line (Suc (Suc 0)) (dropCR ''5|Task 2|true|2024-03-09 14:05:07|low'')
     = Keep (ex_task 5 ''Task 2'' True ''low'') []"
  by code_simp

lemma ex_file_line3:
  "LoadTasks_line (Suc (Suc (Suc 0))) (dropCR ''15|Task 3|false|2024-03-09 14:05:07|medium'')
     = Keep (ex_task 15 ''Task 3'' False ''medium'') []"
  by code_simp

lemma ex_load:
  "LoadTasks NoFault [''tasks.txt'' \<mapsto> ex_file] ''tasks.txt''
     = ([], Inr ([ex_task 10 ''Task 1'' False ''high'', ex_task 5 ''Task 2'' True ''low'',
                  ex_task 15 ''Task 3'' False ''medium''], 15))"
  apply (simp only: LoadTasks_content ex_file_lines)
  apply (subst LoadTasks_loop_line, simp, simp add: MaxScanTokenSize_def)
  apply (simp only: ex_file_line1 line_result.case)
  apply (subst LoadTasks_loop_line, simp, simp add: MaxScanTokenSize_def)
  apply (simp only: ex_file_line2 line_result.case)
  apply (subst LoadTasks_loop_line, simp, simp add: MaxScanTokenSize_def)
  apply (simp only: ex_file_line3 line_result.case LoadTasks_loop_Nil)
  apply (simp add: ex_task_def)
  done





section \<open>Uniqueness of IDs in the store\<close>

lemma wrap64_id: "- (2 ^ 63) \<le> n \<Longrightarrow> n < 2 ^ 63 \<Longrightarrow> wrap64 n = n"
  by (simp add: wrap64_def)

lemma handleDoneTask_loop_ids: "map ID (snd (handleDoneTask_loop tid ts)) = map ID ts"
  by (induction ts) (auto split: prod.splits)

lemma handleDoneTask_loop_set_ids: "ID ` set (snd (handleDoneTask_loop tid ts)) = ID ` set ts"
  using handleDoneTask_loop_ids[of tid ts] by (metis list.set_map)

lemma distinct_swap_shrink:
  assumes "distinct ys" "i < length ys"
  shows "distinct (take (length ys - 1) (ys[i := ys ! (length ys - 1)]))"
proof -
  from assms(2) have "ys \<noteq> []" by auto
  then obtain zs l where ys: "ys = zs @ [l]" by (metis rev_exhaust)
  from assms(1) ys have d: "distinct zs" "l \<notin> set zs" by auto
  show ?thesis
  proof (cases "i = length zs")
    case True
    with d show ?thesis by (simp add: ys)
  next
    case False
    with assms(2) ys have "i < length zs" by simp
    with d show ?thesis by (simp add: ys list_update_append distinct_list_update)
  qed
qed

lemma map_ID_swap_shrink:
  assumes "i < length ts"
  shows "map ID (take (length ts - 1) (ts[i := ts ! (length ts - 1)]))
     = take (length (map ID ts) - 1) ((map ID ts)[i := map ID ts ! (length (map ID ts) - 1)])"
proof -
  from assms have k: "length ts - 1 < length ts" by simp
  have "map ID (take (length ts - 1) (ts[i := ts ! (length ts - 1)]))
      = take (length ts - 1) (map ID (ts[i := ts ! (length ts - 1)]))"
    by (simp only: take_map)
  also have "\<dots> = take (length ts - 1) ((map ID ts)[i := ID (ts ! (length ts - 1))])"
    by (simp only: map_update)
  also have "ID (ts ! (length ts - 1)) = map ID ts ! (length ts - 1)"
    using k by (simp only: nth_map)
  finally show ?thesis by (simp only: length_map)
qed

lemma handleDeleteTask_distinct:
  "distinct (map ID (tasks s)) \<Longrightarrow> distinct (map ID (tasks (snd (handleDeleteTask tid s))))"
proof (cases "foundIndex tid (tasks s)")
  case None
  assume "distinct (map ID (tasks s))"
  with None show ?thesis by (simp add: handleDeleteTask_def)
next
  case (Some i)
  assume d: "distinct (map ID (tasks s))"
  from Some have i: "i < length (tasks s)" by (simp add: foundIndex_Some)
  then have "i < length (map ID (tasks s))" by simp
  from distinct_swap_shrink[OF d this] map_ID_swap_shrink[OF i] Some
  show ?thesis by (simp add: handleDeleteTask_def)
qed

lemma handleDeleteTask_subset:
  "set (tasks (snd (handleDeleteTask tid s))) \<subseteq> set (tasks s)"
proof (cases "foundIndex tid (tasks s)")
  case None
  then show ?thesis by (simp add: handleDeleteTask_def)
next
  case (Some i)
  then have i: "i < length (tasks s)" by (simp add: foundIndex_Some)
  have "set (take (length (tasks s) - 1) ((tasks s)[i := tasks s ! (length (tasks s) - 1)]))
      \<subseteq> set ((tasks s)[i := tasks s ! (length (tasks s) - 1)])"
    by (rule set_take_subset)
  also have "\<dots> \<subseteq> insert (tasks s ! (length (tasks s) - 1)) (set (tasks s))"
    by (rule set_update_subset_insert)
  also have "\<dots> \<subseteq> set (tasks s)" using i by auto
  finally show ?thesis using Some by (simp add: handleDeleteTask_def)
qed

lemma handleDeleteTask_idGen: "idGen (snd (handleDeleteTask tid s)) = idGen s"
  by (simp add: handleDeleteTask_def split: option.splits)

lemma exec_fresh:
  assumes "ids_fresh (length (filter isAdd (cmd # cmds))) s"
  shows "ids_fresh (length (filter isAdd cmds)) (exec s cmd)"
proof (cases cmd)
  case (CmdAdd now title priority)
  let ?k = "length (filter isAdd cmds)"
  from assms CmdAdd obtain n where d: "distinct (map ID (tasks s))"
    and n: "1 \<le> n" "n + int (Suc ?k) \<le> 2 ^ 63" "nextID (idGen s) = wrap64 n"
    and lt: "\<forall>t\<in>set (tasks s). ID t < n"
    by (auto simp: ids_fresh_def)
  from n have w: "wrap64 n = n" by (intro wrap64_id) auto
  have t: "tasks (exec s cmd) = tasks s @ [AddTask now n title
       (if priority = PriorityHigh \<or> priority = PriorityMedium \<or> priority = PriorityLow
        then priority else defaultPriority)]"
    using n(3) w by (simp add: CmdAdd handleAddTask_def NextID_def Let_def)
  have g: "nextID (idGen (exec s cmd)) = wrap64 (n + 1)"
    using n(3) w by (simp add: CmdAdd handleAddTask_def NextID_def Let_def)
  have i: "ID (AddTask now n title
       (if priority = PriorityHigh \<or> priority = PriorityMedium \<or> priority = PriorityLow
        then priority else defaultPriority)) = n"
    by (simp add: AddTask_def Let_def)
  have "distinct (map ID (tasks (exec s cmd)))"
    using d lt by (auto simp: t i simp del: One_nat_def)
  moreover have "\<forall>t\<in>set (tasks (exec s cmd)). ID t < n + 1"
    using lt by (auto simp: t i)
  ultimately show ?thesis
    unfolding ids_fresh_def using n g by (intro conjI exI[of _ "n + 1"]) auto
next
  case (CmdDone tid)
  have m: "map ID (tasks (exec s cmd)) = map ID (tasks s)"
    using handleDoneTask_loop_ids[of tid "tasks s"]
    by (auto simp: CmdDone handleDoneTask_def split: prod.splits)
  then have im: "ID ` set (tasks (exec s cmd)) = ID ` set (tasks s)"
    by (metis list.set_map)
  have g: "idGen (exec s cmd) = idGen s"
    by (simp add: CmdDone handleDoneTask_def split: prod.splits)
  from assms CmdDone obtain n where d: "distinct (map ID (tasks s))"
    and n: "1 \<le> n" "n + int (length (filter isAdd cmds)) \<le> 2 ^ 63" "nextID (idGen s) = wrap64 n"
    and lt: "\<forall>t\<in>set (tasks s). ID t < n"
    by (auto simp: ids_fresh_def)
  from lt have "\<forall>x\<in>ID ` set (tasks s). x < n" by auto
  with im have "\<forall>x\<in>ID ` set (tasks (exec s cmd)). x < n" by (simp only:)
  then have "\<forall>t\<in>set (tasks (exec s cmd)). ID t < n" by blast
  with d n m g show ?thesis unfolding ids_fresh_def by auto
next
  case (CmdDelete tid)
  from assms CmdDelete show ?thesis
    using handleDeleteTask_distinct[of s tid] handleDeleteTask_subset[of tid s]
      handleDeleteTask_idGen[of tid s]
    by (auto simp: ids_fresh_def)
qed

lemma execs_fresh:
  "ids_fresh (length (filter isAdd cmds)) s \<Longrightarrow> ids_fresh 0 (execs cmds s)"
proof (induction cmds arbitrary: s)
  case Nil
  then show ?case by (simp add: execs_def)
next
  case (Cons cmd cmds)
  from exec_fresh[OF Cons.prems] have "ids_fresh (length (filter isAdd cmds)) (exec s cmd)" .
  from Cons.IH[OF this] show ?case by (simp add: execs_def)
qed

lemma LoadTasks_maxID:
  assumes "LoadTasks flt fs filePath = (diags, Inr (ts, maxID))"
  shows "maxID = Max (insert 0 (ID ` set ts))"
proof (cases "fs filePath")
  case None
  with assms show ?thesis by (simp add: LoadTasks_def)
next
  case (Some content)
  with assms obtain input where "LoadTasks_loop input 0 [] 0 [] = (diags, Some (ts, maxID))"
    by (auto simp: LoadTasks_def Let_def split: if_splits prod.splits option.splits)
  from LoadTasks_loop_maxID[OF this] show ?thesis by simp
qed

lemma main_load_nextID:
  "nextID (idGen (main_load flt fs taskPath))
     = wrap64 (Max (insert 0 (ID ` set (tasks (main_load flt fs taskPath)))) + 1)"
proof (cases "LoadTasks flt fs taskPath")
  case (Pair diags r)
  show ?thesis
  proof (cases r)
    case (Inl e)
    with Pair show ?thesis by (simp add: main_load_def NewIDGenerator_def)
  next
    case (Inr p)
    obtain ts maxID where p: "p = (ts, maxID)" by (cases p)
    from LoadTasks_maxID[of flt fs taskPath diags ts maxID] Pair Inr p
    have "maxID = Max (insert 0 (ID ` set ts))" by simp
    with Pair Inr p show ?thesis by (simp add: main_load_def NewIDGenerator_def)
  qed
qed

lemma ex_main_load:
  "main_load NoFault [''tasks.txt'' \<mapsto> ex_file] ''tasks.txt''
     = \<lparr>tasks = [ex_task 10 ''Task 1'' False ''high'', ex_task 5 ''Task 2'' True ''low'',
                 ex_task 15 ''Task 3'' False ''medium''],
        idGen = \<lparr>nextID = 16\<rparr>\<rparr>"
  by (simp add: main_load_def ex_load NewIDGenerator_def wrap64_def)

lemma ex_run:
  "map ID (tasks (execs ex_cmds (main_load NoFault [''tasks.txt'' \<mapsto> ex_file] ''tasks.txt'')))
     = [10, 16, 15, 17]"
  by (simp add: ex_main_load ex_cmds_def execs_def handleAddTask_def NextID_def wrap64_def
      AddTask_def handleDeleteTask_def handleDoneTask_def ex_task_def Let_def
      PriorityHigh_def PriorityMedium_def PriorityLow_def defaultPriority_def)

lemma dup_line1:
  "LoadTasks_line (Suc 0) (dropCR ''1|a|false|2024-03-09 14:05:07|high'')
     = Keep (ex_task 1 ''a'' False ''high'') []"
  by code_simp

lemma dup_line2:
  "LoadTasks_line (Suc (Suc 0)) (dropCR ''1|b|true|2024-03-09 14:05:07|low'')
     = Keep (ex_task 1 ''b'' True ''low'') []"
  by code_simp

lemma dup_load:
  "LoadTasks NoFault
     [''tasks.txt'' \<mapsto> ex_dup_file] ''tasks.txt''
     = ([], Inr ([ex_task 1 ''a'' False ''high'', ex_task 1 ''b'' True ''low''], 1))"
  apply (simp only: LoadTasks_content ex_dup_file_def)
  apply (subst LoadTasks_loop_line, simp, simp add: MaxScanTokenSize_def)
  apply (simp only: dup_line1 line_result.case)
  apply (subst LoadTasks_loop_line, simp, simp add: MaxScanTokenSize_def)
  apply (simp only: dup_line2 line_result.case LoadTasks_loop_Nil)
  apply (simp add: ex_task_def)
  done

text \<open>
  Claim C4, as stated, fails in the very first state: \<^verbatim>\<open>LoadTasks\<close> keeps every decodable
  line, so a file with two lines of the same ID yields a store with two records of that ID.
\<close>

theorem store_ids_distinct_counterexample:
  "\<not> distinct (map ID (tasks (execs []
        (main_load NoFault
           [''tasks.txt'' \<mapsto> ex_dup_file] ''tasks.txt''))))"
  by (simp add: main_load_def dup_load execs_def ex_task_def)

text \<open>
  A second way to lose uniqueness: when the file holds the largest 64-bit ID, the generator's
  next value wraps around to the smallest one, which the file may hold as well.
\<close>

lemma atoi_max: "Atoi ''9223372036854775807'' = Some 9223372036854775807"
  by (simp add: Atoi_def digits_val_def digit_val_def isDigit_def)

lemma atoi_min: "Atoi ''-9223372036854775808'' = Some (- 9223372036854775808)"
  by (simp add: Atoi_def digits_val_def digit_val_def isDigit_def)

lemma parse_ex_time: "Parse ''2024-03-09 14:05:07'' = Some ex_time"
  by code_simp

lemma big_line1:
  "LoadTasks_line (Suc 0) (dropCR ''9223372036854775807|a|false|2024-03-09 14:05:07|high'')
     = Keep (ex_task 9223372036854775807 ''a'' False ''high'') []"
  by (simp add: LoadTasks_line_def dropCR_def eval_nat_numeral atoi_max parse_ex_time
      ParseBool_def ex_task_def PriorityHigh_def)

lemma big_line2:
  "LoadTasks_line (Suc (Suc 0)) (dropCR ''-9223372036854775808|b|true|2024-03-09 14:05:07|low'')
     = Keep (ex_task (- 9223372036854775808) ''b'' True ''low'') []"
  by (simp add: LoadTasks_line_def dropCR_def eval_nat_numeral atoi_min parse_ex_time
      ParseBool_def ex_task_def PriorityHigh_def PriorityMedium_def PriorityLow_def)

lemma big_load:
  "LoadTasks NoFault [''tasks.txt'' \<mapsto> ex_big_file] ''tasks.txt''
     = ([], Inr ([ex_task 9223372036854775807 ''a'' False ''high'',
                  ex_task (- 9223372036854775808) ''b'' True ''low''], 9223372036854775807))"
  apply (simp only: LoadTasks_content ex_big_file_def)
  apply (subst LoadTasks_loop_line, simp, simp add: MaxScanTokenSize_def)
  apply (simp only: big_line1 line_result.case)
  apply (subst LoadTasks_loop_line, simp, simp add: MaxScanTokenSize_def)
  apply (simp only: big_line2 line_result.case LoadTasks_loop_Nil)
  apply (simp add: ex_task_def)
  done

lemma store_ids_overflow_example:
  "map ID (tasks (main_load NoFault [''tasks.txt'' \<mapsto> ex_big_file] ''tasks.txt''))
     = [9223372036854775807, - 9223372036854775808]
   \<and> map ID (tasks (execs [CmdAdd ex_time ''c'' ''low'']
        (main_load NoFault [''tasks.txt'' \<mapsto> ex_big_file] ''tasks.txt'')))
     = [9223372036854775807, - 9223372036854775808, - 9223372036854775808]"
  by (simp add: main_load_def big_load execs_def handleAddTask_def NextID_def NewIDGenerator_def
      wrap64_def AddTask_def ex_task_def Let_def
      PriorityHigh_def PriorityMedium_def PriorityLow_def defaultPriority_def)

text \<open>
  Claim C4, amended. If the records that the initial \<^verbatim>\<open>LoadTasks\<close> yields have pairwise
  distinct IDs, then after seeding the generator with the maximum ID and running any
  sequence of add, done and delete commands the IDs in the store are pairwise distinct,
  provided the generator does not overflow: the maximum ID plus the number of adds stays
  below \<open>2^63\<close>.
\<close>

theorem store_ids_distinct:
  assumes "distinct (map ID (tasks (main_load flt fs taskPath)))"
    and "Max (insert 0 (ID ` set (tasks (main_load flt fs taskPath))))
           + int (length (filter isAdd cmds)) < 2 ^ 63"
  shows "distinct (map ID (tasks (execs cmds (main_load flt fs taskPath))))"
proof -
  define s where "s = main_load flt fs taskPath"
  define m where "m = Max (insert 0 (ID ` set (tasks s)))"
  have fin: "finite (insert 0 (ID ` set (tasks s)))" by simp
  have m0: "0 \<le> m" unfolding m_def by (rule Max_ge[OF fin]) simp
  have le: "\<forall>t\<in>set (tasks s). ID t < m + 1"
  proof
    fix t assume "t \<in> set (tasks s)"
    then have "ID t \<in> insert 0 (ID ` set (tasks s))" by simp
    from Max_ge[OF fin this] show "ID t < m + 1" unfolding m_def by linarith
  qed
  have d: "distinct (map ID (tasks s))" using assms(1) by (simp only: s_def)
  have b: "m + int (length (filter isAdd cmds)) < 2 ^ 63"
    using assms(2) by (simp only: s_def m_def)
  have nx: "nextID (idGen s) = wrap64 (m + 1)"
    using main_load_nextID[of flt fs taskPath] by (simp only: s_def m_def)
  have "1 \<le> m + 1" "m + 1 + int (length (filter isAdd cmds)) \<le> 2 ^ 63"
    using m0 b by linarith+
  with d le nx have "ids_fresh (length (filter isAdd cmds)) s"
    unfolding ids_fresh_def by blast
  from execs_fresh[OF this] show ?thesis by (simp add: ids_fresh_def s_def)
qed

theorem store_ids_distinct_witness:
  "distinct (map ID (tasks (main_load NoFault [''tasks.txt'' \<mapsto> ex_file] ''tasks.txt'')))
   \<and> Max (insert 0 (ID ` set (tasks (main_load NoFault [''tasks.txt'' \<mapsto> ex_file] ''tasks.txt''))))
         + int (length (filter isAdd ex_cmds)) < 2 ^ 63
   \<and> distinct (map ID (tasks (execs ex_cmds
         (main_load NoFault [''tasks.txt'' \<mapsto> ex_file] ''tasks.txt''))))
   \<and> map ID (tasks (execs ex_cmds (main_load NoFault [''tasks.txt'' \<mapsto> ex_file] ''tasks.txt'')))
       = [10, 16, 15, 17]"
proof -
  have d: "distinct (map ID (tasks (main_load NoFault [''tasks.txt'' \<mapsto> ex_file] ''tasks.txt'')))"
    by (simp add: ex_main_load ex_task_def)
  have b: "Max (insert 0 (ID ` set (tasks (main_load NoFault [''tasks.txt'' \<mapsto> ex_file] ''tasks.txt''))))
         + int (length (filter isAdd ex_cmds)) < 2 ^ 63"
    by (simp add: ex_main_load ex_task_def ex_cmds_def)
  from store_ids_distinct[OF d b] d b ex_run show ?thesis by blast
qed

section \<open>Decoding a file with malformed lines\<close>

lemma LoadTasks_line_spec:
  "LoadTasks_line k l =
     (if line_skipped l then Skip (line_diag k l) else Keep (line_record l) (line_diags k l))"
  by (auto simp: LoadTasks_line_def line_skipped_def line_record_def line_diag_def line_diags_def
      line_fields_def priority_known_def Let_def split: option.splits)

lemma file_lines_Nil: "file_lines [] = []"
  by (simp add: file_lines.simps)

lemma file_lines_line:
  "CHR 0x0A \<notin> set l \<Longrightarrow> file_lines (l @ CHR 0x0A # rest) = l # file_lines rest"
  by (subst file_lines.simps) (simp add: takeWhile_line)

lemma LoadTasks_loop_spec:
  "\<forall>l\<in>set (file_lines input). length l < MaxScanTokenSize \<Longrightarrow>
   \<exists>m'. LoadTasks_loop input n ts m diags =
     (diags @ decode_diags n (map dropCR (file_lines input)),
      Some (ts @ decode_records (map dropCR (file_lines input)), m'))"
proof (induction input arbitrary: n ts m diags rule: file_lines.induct)
  case (1 input)
  show ?case
  proof (cases "input = []")
    case True
    then show ?thesis
      by (simp add: LoadTasks_loop_Nil file_lines_Nil decode_records_def)
  next
    case False
    define line where "line = takeWhile (\<lambda>c. c \<noteq> CHR 0x0A) input"
    define rest where "rest = drop (Suc (length line)) input"
    have fl: "file_lines input = line # file_lines rest"
      using False by (subst file_lines.simps) (simp add: line_def rest_def)
    with "1.prems" have len: "length line < MaxScanTokenSize"
      and restlen: "\<forall>l\<in>set (file_lines rest). length l < MaxScanTokenSize" by auto
    have sc: "Scan input = ScanToken (dropCR line) rest"
      using False len by (simp add: Scan_def Let_def line_def rest_def)
    note IH = "1.IH"[OF False, folded line_def, folded rest_def, OF restlen]
    show ?thesis
    proof (cases "line_skipped (dropCR line)")
      case True
      from IH[of "Suc n" ts m "diags @ [line_diag (Suc n) (dropCR line)]"]
      obtain m' where "LoadTasks_loop rest (Suc n) ts m (diags @ [line_diag (Suc n) (dropCR line)])
         = ((diags @ [line_diag (Suc n) (dropCR line)]) @ decode_diags (Suc n) (map dropCR (file_lines rest)),
            Some (ts @ decode_records (map dropCR (file_lines rest)), m'))" by blast
      with True sc fl show ?thesis
        by (subst LoadTasks_loop.simps)
           (simp add: LoadTasks_line_spec line_diags_def decode_records_def)
    next
      case False
      let ?t = "line_record (dropCR line)"
      from IH[of "Suc n" "ts @ [?t]" "if ID ?t > m then ID ?t else m"
          "diags @ line_diags (Suc n) (dropCR line)"]
      obtain m' where "LoadTasks_loop rest (Suc n) (ts @ [?t]) (if ID ?t > m then ID ?t else m)
           (diags @ line_diags (Suc n) (dropCR line))
         = ((diags @ line_diags (Suc n) (dropCR line)) @ decode_diags (Suc n) (map dropCR (file_lines rest)),
            Some ((ts @ [?t]) @ decode_records (map dropCR (file_lines rest)), m'))" by blast
      with False sc fl show ?thesis
        by (subst LoadTasks_loop.simps)
           (simp add: LoadTasks_line_spec decode_records_def)
    qed
  qed
qed

lemma mixed_line1:
  "LoadTasks_line (Suc 0) (dropCR ''1|Valid Task|false|2024-03-09 14:05:07|high'')
     = Keep (ex_task 1 ''Valid Task'' False ''high'') []"
  by code_simp

lemma mixed_line2:
  "LoadTasks_line (Suc (Suc 0)) (dropCR ''invalid_id|Task 2|true|2024-03-09 14:05:07|low'')
     = Skip (DiagBadID 2 ''invalid_id'')"
  by code_simp

lemma mixed_line3:
  "LoadTasks_line (Suc (Suc (Suc 0))) (dropCR ''3|Task 3|not_bool|2024-03-09 14:05:07|medium'')
     = Skip (DiagBadDone 3 ''not_bool'')"
  by code_simp

lemma mixed_line4:
  "LoadTasks_line (Suc (Suc (Suc (Suc 0)))) (dropCR ''4|Task 4|false|invalid_date|high'')
     = Skip (DiagBadDate 4 ''invalid_date'')"
  by code_simp

lemma mixed_line5:
  "LoadTasks_line (Suc (Suc (Suc (Suc (Suc 0))))) (dropCR ''5|Task 5|true|2024-03-09 14:05:07|invalid_priority'')
     = Keep (ex_task 5 ''Task 5'' True ''medium'') [DiagBadPriority 5 ''invalid_priority'']"
  by code_simp

lemma mixed_line6:
  "LoadTasks_line (Suc (Suc (Suc (Suc (Suc (Suc 0)))))) (dropCR ''6|Too few parts|true'')
     = Skip (DiagBadLine 6 ''6|Too few parts|true'')"
  by code_simp

lemma mixed_line7:
  "LoadTasks_line (Suc (Suc (Suc (Suc (Suc (Suc (Suc 0))))))) (dropCR ''7|Valid Task 2|true|2024-03-09 14:05:07|low'')
     = Keep (ex_task 7 ''Valid Task 2'' True ''low'') []"
  by code_simp

lemma mixed_load:
  "LoadTasks NoFault [''tasks.txt'' \<mapsto> ex_mixed_file] ''tasks.txt''
     = ([DiagBadID 2 ''invalid_id'', DiagBadDone 3 ''not_bool'', DiagBadDate 4 ''invalid_date'',
         DiagBadPriority 5 ''invalid_priority'', DiagBadLine 6 ''6|Too few parts|true''],
        Inr ([ex_task 1 ''Valid Task'' False ''high'', ex_task 5 ''Task 5'' True ''medium'',
              ex_task 7 ''Valid Task 2'' True ''low''], 7))"
  apply (simp only: LoadTasks_content ex_mixed_file_def)
  apply (subst LoadTasks_loop_line, simp, simp add: MaxScanTokenSize_def)
  apply (simp only: mixed_line1 line_result.case)
  apply (subst LoadTasks_loop_line, simp, simp add: MaxScanTokenSize_def)
  apply (simp only: mixed_line2 line_result.case)
  apply (subst LoadTasks_loop_line, simp, simp add: MaxScanTokenSize_def)
  apply (simp only: mixed_line3 line_result.case)
  apply (subst LoadTasks_loop_line, simp, simp add: MaxScanTokenSize_def)
  apply (simp only: mixed_line4 line_result.case)
  apply (subst LoadTasks_loop_line, simp, simp add: MaxScanTokenSize_def)
  apply (simp only: mixed_line5 line_result.case)
  apply (subst LoadTasks_loop_line, simp, simp add: MaxScanTokenSize_def)
  apply (simp only: mixed_line6 line_result.case)
  apply (subst LoadTasks_loop_line, simp, simp add: MaxScanTokenSize_def)
  apply (simp only: mixed_line7 line_result.case)
  apply (simp only: LoadTasks_loop_Nil)
  apply (simp add: ex_task_def)
  done

lemma mixed_lines_short:
  "\<forall>l\<in>set (file_lines ex_mixed_file). length l < MaxScanTokenSize"
  apply (simp only: ex_mixed_file_def)
  apply (subst file_lines_line, simp)
  apply (subst file_lines_line, simp)
  apply (subst file_lines_line, simp)
  apply (subst file_lines_line, simp)
  apply (subst file_lines_line, simp)
  apply (subst file_lines_line, simp)
  apply (subst file_lines_line, simp)
  apply (simp only: file_lines_Nil)
  apply (simp add: MaxScanTokenSize_def)
  done

text \<open>
  Claim C2, as stated, fails on a file with a line of 65536 bytes or more: the scanner
  stops with an error there, and \<^verbatim>\<open>LoadTasks\<close> returns that error and no record at all,
  although the first line is a valid record and the long line merely does not split into
  five fields.
\<close>

theorem LoadTasks_decode_robust_counterexample:
  "LoadTasks NoFault [''tasks.txt'' \<mapsto> ex_long_file] ''tasks.txt'' = ([], Inl ErrRead)
   \<and> LoadTasks_line (Suc 0) (dropCR ''1|Valid Task|false|2024-03-09 14:05:07|high'')
       = Keep (ex_task 1 ''Valid Task'' False ''high'') []
   \<and> length (SplitN (replicate 65536 (CHR ''x'')) (CHR ''|'') 5) \<noteq> 5"
proof (intro conjI)
  show "LoadTasks NoFault [''tasks.txt'' \<mapsto> ex_long_file] ''tasks.txt'' = ([], Inl ErrRead)"
    apply (simp only: LoadTasks_content ex_long_file_def)
    apply (subst LoadTasks_loop_line, simp, simp add: MaxScanTokenSize_def)
    apply (simp only: mixed_line1 line_result.case)
    apply (subst LoadTasks_loop_too_long, simp, simp add: MaxScanTokenSize_def)
    apply simp
    done
  show "LoadTasks_line (Suc 0) (dropCR ''1|Valid Task|false|2024-03-09 14:05:07|high'')
       = Keep (ex_task 1 ''Valid Task'' False ''high'') []"
    by (rule mixed_line1)
  show "length (SplitN (replicate 65536 (CHR ''x'')) (CHR ''|'') 5) \<noteq> 5"
  proof -
    have five: "(5::nat) = Suc (Suc 3)" by simp
    have "CHR ''|'' \<notin> set (replicate 65536 (CHR ''x''))" by simp
    then have "SplitN (replicate 65536 (CHR ''x'')) (CHR ''|'') (Suc (Suc 3))
        = [replicate 65536 (CHR ''x'')]"
      by (simp only: SplitN.simps if_False)
    then show ?thesis by (simp only: five) simp
  qed
qed

text \<open>
  Claim C2, amended. For every file whose lines are all shorter than 65536 bytes,
  \<^verbatim>\<open>LoadTasks\<close> skips, each with one diagnostic and without stopping, exactly the lines
  that do not split into five fields, or whose ID, done flag or timestamp does not parse.
  A line whose only defect is an unknown priority is kept with priority medium, and a
  diagnostic is printed. The records returned are exactly those of the lines not skipped,
  in file order.
\<close>

theorem LoadTasks_decode_robust:
  "(fs filePath = Some content \<and> (\<forall>l\<in>set (file_lines content). length l < MaxScanTokenSize) \<longrightarrow>
      LoadTasks NoFault fs filePath =
        (decode_diags 0 (map dropCR (file_lines content)),
         Inr (map line_record (filter (\<lambda>l. \<not> line_skipped l) (map dropCR (file_lines content))),
              Max (insert 0 (ID ` set (map line_record
                     (filter (\<lambda>l. \<not> line_skipped l) (map dropCR (file_lines content)))))))))
   \<and> (line_skipped l \<longrightarrow> LoadTasks_line k l = Skip (line_diag k l) \<and> line_diags k l = [line_diag k l])
   \<and> (\<not> line_skipped l \<longrightarrow>
        LoadTasks_line k l = Keep (line_record l) (line_diags k l)
        \<and> line_diags k l
            = (if priority_known (line_fields l ! 4) then []
               else [DiagBadPriority k (line_fields l ! 4)])
        \<and> Priority (line_record l)
            = (if priority_known (line_fields l ! 4) then line_fields l ! 4 else PriorityMedium))"
proof (intro conjI impI)
  assume a: "fs filePath = Some content \<and> (\<forall>l\<in>set (file_lines content). length l < MaxScanTokenSize)"
  let ?L = "map dropCR (file_lines content)"
  from a LoadTasks_loop_spec[of content 0 "[]" 0 "[]"]
  obtain m' where l: "LoadTasks_loop content 0 [] 0 [] = (decode_diags 0 ?L, Some (decode_records ?L, m'))"
    by auto
  from LoadTasks_loop_maxID[OF l] have "m' = Max (insert 0 (ID ` set (decode_records ?L)))" by simp
  with l a show "LoadTasks NoFault fs filePath =
        (decode_diags 0 ?L,
         Inr (map line_record (filter (\<lambda>l. \<not> line_skipped l) ?L),
              Max (insert 0 (ID ` set (map line_record (filter (\<lambda>l. \<not> line_skipped l) ?L))))))"
    by (simp add: LoadTasks_def decode_records_def)
next
  assume "line_skipped l"
  then show "LoadTasks_line k l = Skip (line_diag k l)" by (simp add: LoadTasks_line_spec)
next
  assume "line_skipped l"
  then show "line_diags k l = [line_diag k l]" by (simp add: line_diags_def)
next
  assume "\<not> line_skipped l"
  then show "LoadTasks_line k l = Keep (line_record l) (line_diags k l)"
    by (simp add: LoadTasks_line_spec)
next
  assume "\<not> line_skipped l"
  then show "line_diags k l
            = (if priority_known (line_fields l ! 4) then []
               else [DiagBadPriority k (line_fields l ! 4)])"
    by (auto simp: line_diags_def line_diag_def line_skipped_def)
next
  show "Priority (line_record l)
            = (if priority_known (line_fields l ! 4) then line_fields l ! 4 else PriorityMedium)"
    by (simp add: line_record_def)
qed

theorem LoadTasks_decode_robust_witness:
  "LoadTasks NoFault [''tasks.txt'' \<mapsto> ex_mixed_file] ''tasks.txt'' =
        (decode_diags 0 (map dropCR (file_lines ex_mixed_file)),
         Inr (map line_record (filter (\<lambda>l. \<not> line_skipped l) (map dropCR (file_lines ex_mixed_file))),
              Max (insert 0 (ID ` set (map line_record
                     (filter (\<lambda>l. \<not> line_skipped l) (map dropCR (file_lines ex_mixed_file))))))))
   \<and> LoadTasks NoFault [''tasks.txt'' \<mapsto> ex_mixed_file] ''tasks.txt''
     = ([DiagBadID 2 ''invalid_id'', DiagBadDone 3 ''not_bool'', DiagBadDate 4 ''invalid_date'',
         DiagBadPriority 5 ''invalid_priority'', DiagBadLine 6 ''6|Too few parts|true''],
        Inr ([ex_task 1 ''Valid Task'' False ''high'', ex_task 5 ''Task 5'' True ''medium'',
              ex_task 7 ''Valid Task 2'' True ''low''], 7))"
  using LoadTasks_decode_robust[of "[''tasks.txt'' \<mapsto> ex_mixed_file]" "''tasks.txt''" ex_mixed_file]
    mixed_lines_short mixed_load
  by (simp only: fun_upd_same simp_thms)

section \<open>Encoding and decoding again\<close>

subsection \<open>Integers, booleans and timestamps\<close>

lemma isDigit_digit_char: "n < 10 \<Longrightarrow> isDigit (digit_char n)"
  by (simp add: isDigit_def digit_char_def)

lemma digit_val_digit_char: "n < 10 \<Longrightarrow> digit_val (digit_char n) = n"
  by (simp add: digit_val_def digit_char_def)

lemma digit_char_0: "digit_char 0 = CHR ''0''"
  by code_simp

lemma not_isDigit_special:
  "\<not> isDigit (CHR ''|'')" "\<not> isDigit (CHR 0x0A)" "\<not> isDigit (CHR ''-'')" "\<not> isDigit (CHR ''+'')"
  "\<not> isDigit (CHR 0x0D)"
  by (simp_all add: isDigit_def)

lemma nat_digits_all: "list_all isDigit (nat_digits n)"
  by (induction n rule: nat_digits.induct)
     (subst nat_digits.simps, simp add: isDigit_digit_char)

lemma nat_digits_ne: "nat_digits n \<noteq> []"
  by (subst nat_digits.simps) simp

lemma digits_val_append: "digits_val (ds @ [c]) = 10 * digits_val ds + digit_val c"
  by (simp add: digits_val_def)

lemma digits_val_nat_digits: "digits_val (nat_digits n) = n"
proof (induction n rule: nat_digits.induct)
  case (1 n)
  show ?case
  proof (cases "n < 10")
    case True
    then show ?thesis
      by (subst nat_digits.simps) (simp add: digits_val_def digit_val_digit_char)
  next
    case False
    with 1 have "digits_val (nat_digits (n div 10)) = n div 10" by simp
    with False show ?thesis
      by (subst nat_digits.simps) (simp add: digits_val_append digit_val_digit_char)
  qed
qed

lemma Atoi_fmt_d:
  assumes "- (2 ^ 63) \<le> i" "i < 2 ^ 63"
  shows "Atoi (fmt_d i) = Some i"
proof (cases "i < 0")
  case True
  obtain d ds where ds: "nat_digits (nat (- i)) = d # ds"
    using nat_digits_ne[of "nat (- i)"] by (cases "nat_digits (nat (- i))") auto
  have v: "int (digits_val (nat_digits (nat (- i)))) = - i"
    using True by (simp add: digits_val_nat_digits)
  show ?thesis
    using True assms nat_digits_all[of "nat (- i)"] nat_digits_ne[of "nat (- i)"] v
    by (simp add: fmt_d_def Atoi_def Let_def)
next
  case False
  obtain d ds where ds: "nat_digits (nat i) = d # ds"
    using nat_digits_ne[of "nat i"] by (cases "nat_digits (nat i)") auto
  from nat_digits_all[of "nat i"] ds have d: "isDigit d" by simp
  then have dm: "d \<noteq> CHR ''-''" "d \<noteq> CHR ''+''" using not_isDigit_special by auto
  have v: "int (digits_val (nat_digits (nat i))) = i"
    using False by (simp add: digits_val_nat_digits)
  show ?thesis
    using False assms nat_digits_all[of "nat i"] v dm ds
    by (simp add: fmt_d_def Atoi_def Let_def)
qed

lemma fmt_d_chars: "c \<in> set (fmt_d i) \<Longrightarrow> isDigit c \<or> c = CHR ''-''"
  using nat_digits_all by (auto simp: fmt_d_def list_all_iff split: if_splits)

lemma ParseBool_fmt_t: "ParseBool (fmt_t b) = Some b"
  by (simp add: ParseBool_def fmt_t_def)

lemma fmt_t_chars: "CHR ''|'' \<notin> set (fmt_t b)" "CHR 0x0A \<notin> set (fmt_t b)"
  by (simp_all add: fmt_t_def)

lemma nat_digits_small: "n < 10 \<Longrightarrow> nat_digits n = [digit_char n]"
  by (subst nat_digits.simps) simp

lemma nat_digits_2: "10 \<le> n \<Longrightarrow> n < 100 \<Longrightarrow> nat_digits n = [digit_char (n div 10), digit_char (n mod 10)]"
  by (subst nat_digits.simps) (simp add: nat_digits_small)

lemma nat_digits_3:
  "100 \<le> n \<Longrightarrow> n < 1000 \<Longrightarrow>
   nat_digits n = [digit_char (n div 100), digit_char (n div 10 mod 10), digit_char (n mod 10)]"
proof -
  assume a: "100 \<le> n" "n < 1000"
  then have b: "10 \<le> n div 10" "n div 10 < 100" by simp_all
  have c: "n div 10 div 10 = n div 100" by (simp add: div_mult2_eq[symmetric])
  from a have "nat_digits n = nat_digits (n div 10) @ [digit_char (n mod 10)]"
    by (subst nat_digits.simps) simp
  with nat_digits_2[OF b] c show ?thesis by simp
qed

lemma nat_digits_4:
  "1000 \<le> n \<Longrightarrow> n < 10000 \<Longrightarrow>
   nat_digits n = [digit_char (n div 1000), digit_char (n div 100 mod 10),
                   digit_char (n div 10 mod 10), digit_char (n mod 10)]"
proof -
  assume a: "1000 \<le> n" "n < 10000"
  then have b: "100 \<le> n div 10" "n div 10 < 1000" by simp_all
  have c: "n div 10 div 100 = n div 1000" "n div 10 div 10 = n div 100"
    by (simp_all add: div_mult2_eq[symmetric])
  from a have "nat_digits n = nat_digits (n div 10) @ [digit_char (n mod 10)]"
    by (subst nat_digits.simps) simp
  with nat_digits_3[OF b] c show ?thesis by simp
qed

lemma replicate_small:
  "replicate 3 c = [c, c, c]" "replicate 2 c = [c, c]" "replicate (Suc 0) c = [c]"
  by (simp_all add: numeral_3_eq_3 numeral_2_eq_2)

lemma appendInt_2:
  "n < 100 \<Longrightarrow> appendInt (int n) 2 = [digit_char (n div 10), digit_char (n mod 10)]"
  by (cases "n < 10") (simp_all add: appendInt_def nat_digits_small nat_digits_2 digit_char_0)

lemma appendInt_4:
  assumes "0 \<le> y" "y < 10000"
  shows "appendInt y 4 = [digit_char (nat y div 1000), digit_char (nat y div 100 mod 10),
                          digit_char (nat y div 10 mod 10), digit_char (nat y mod 10)]"
proof -
  define n where "n = nat y"
  have n: "n < 10000" "nat \<bar>y\<bar> = n" "\<not> y < 0" using assms by (auto simp: n_def)
  consider "n < 10" | "10 \<le> n" "n < 100" | "100 \<le> n" "n < 1000" | "1000 \<le> n" by linarith
  then have "replicate (4 - length (nat_digits n)) (CHR ''0'') @ nat_digits n
      = [digit_char (n div 1000), digit_char (n div 100 mod 10),
         digit_char (n div 10 mod 10), digit_char (n mod 10)]"
  proof cases
    case 1 then show ?thesis by (simp add: nat_digits_small digit_char_0 replicate_small)
  next
    case 2 then show ?thesis by (simp add: nat_digits_2 digit_char_0 replicate_small)
  next
    case 3 then show ?thesis by (simp add: nat_digits_3 digit_char_0 replicate_small)
  next
    case 4 with n show ?thesis by (simp add: nat_digits_4)
  qed
  with n show ?thesis by (simp add: appendInt_def n_def[symmetric])
qed

lemma daysIn_le: "daysIn m y \<le> 31"
  by (simp add: daysIn_def)

lemma digits4_val:
  assumes "n < 10000"
  shows "digits_val [digit_char (n div 1000), digit_char (n div 100 mod 10),
               digit_char (n div 10 mod 10), digit_char (n mod 10)] = n"
proof -
  define q1 where "q1 = n div 10"
  define q2 where "q2 = q1 div 10"
  define q3 where "q3 = q2 div 10"
  have e2: "n div 100 = q2" unfolding q2_def q1_def by (simp add: div_mult2_eq[symmetric])
  have e3: "n div 1000 = q3" unfolding q3_def q2_def q1_def by (simp add: div_mult2_eq[symmetric])
  have q3: "q3 < 10" using assms unfolding e3[symmetric] by simp
  have "digits_val [digit_char q3, digit_char (q2 mod 10), digit_char (q1 mod 10), digit_char (n mod 10)]
     = 10 * (10 * (10 * q3 + q2 mod 10) + q1 mod 10) + n mod 10"
    using q3 by (simp add: digits_val_def digit_val_digit_char)
  also have "10 * q3 + q2 mod 10 = q2" unfolding q3_def by simp
  also have "10 * q2 + q1 mod 10 = q1" unfolding q2_def by simp
  also have "10 * q1 + n mod 10 = n" unfolding q1_def by simp
  finally show ?thesis by (simp only: e2 e3 q1_def[symmetric])
qed

lemma getnum_two:
  "a < 10 \<Longrightarrow> b < 10 \<Longrightarrow> getnum (digit_char a # digit_char b # rest) fixed = Some (a * 10 + b, rest)"
  by (simp add: getnum_def isDigit_digit_char digit_val_digit_char)

lemma Parse_Format:
  assumes "valid_Time t" "year t \<le> 9999"
  shows "Parse (Format t) = Some (t\<lparr>nsec := 0, zoneOffset := 0\<rparr>)"
proof -
  from assms have y: "0 \<le> year t" "year t < 10000" by (auto simp: valid_Time_def)
  from assms daysIn_le[of "month t" "nat (year t)"]
  have r: "month t < 100" "day t < 100" "hour t < 100" "minute t < 100" "second t < 100"
    by (auto simp: valid_Time_def)
  define n where "n = nat (year t)"
  have n: "n < 10000" "int n = year t" using y by (auto simp: n_def)
  have dv: "\<And>k::nat. k div 10 * 10 + k mod 10 = k" by simp
  have F: "Format t =
      [digit_char (n div 1000), digit_char (n div 100 mod 10),
       digit_char (n div 10 mod 10), digit_char (n mod 10), CHR ''-'',
       digit_char (month t div 10), digit_char (month t mod 10), CHR ''-'',
       digit_char (day t div 10), digit_char (day t mod 10), CHR '' '',
       digit_char (hour t div 10), digit_char (hour t mod 10), CHR '':'',
       digit_char (minute t div 10), digit_char (minute t mod 10), CHR '':'',
       digit_char (second t div 10), digit_char (second t mod 10)]"
    using y r by (simp add: Format_def appendInt_2 appendInt_4 n_def)
  have lt: "n div 1000 < 10" "month t div 10 < 10" "day t div 10 < 10" "hour t div 10 < 10"
    "minute t div 10 < 10" "second t div 10 < 10"
    using n r by simp_all
  have sp: "digit_char (hour t div 10) \<noteq> CHR '' ''"
    using isDigit_digit_char[OF lt(4)] by (auto simp: isDigit_def)
  have g: "month t \<noteq> 0" "\<not> 12 < month t" "\<not> 24 \<le> hour t" "\<not> 60 \<le> minute t"
    "\<not> 60 \<le> second t" "\<not> day t < 1" "\<not> daysIn (month t) n < day t"
    using assms by (auto simp: valid_Time_def n_def)
  have "Parse (Format t) = Some \<lparr>year = int n, month = month t, day = day t, hour = hour t,
      minute = minute t, second = second t, nsec = 0, zoneOffset = 0\<rparr>"
    unfolding F using lt sp g
    by (simp add: Parse_def isDigit_digit_char digits4_val[OF n(1)] getnum_two skip_def
        fracSecond_def dv)
  then show ?thesis using n by simp
qed

subsection \<open>Lines and files\<close>

lemma taskFileFormat_line: "taskFileFormat t = task_line t @ [CHR 0x0A]"
  by (simp add: taskFileFormat_def task_line_def)

lemma dropWhile_line: "c \<notin> set line \<Longrightarrow> dropWhile (\<lambda>x. x \<noteq> c) (line @ c # rest) = c # rest"
  by (induction line) auto

lemma SplitN_sep:
  "sep \<notin> set a \<Longrightarrow> SplitN (a @ sep # rest) sep (Suc (Suc n)) = a # SplitN rest sep (Suc n)"
  by (simp add: takeWhile_line dropWhile_line)

lemma Format_chars:
  assumes "valid_Time t" "year t \<le> 9999" "c \<in> set (Format t)"
  shows "isDigit c \<or> c = CHR ''-'' \<or> c = CHR '' '' \<or> c = CHR '':''"
proof -
  have a: "\<And>k w c. c \<in> set (appendInt k w) \<Longrightarrow> isDigit c \<or> c = CHR ''-'' \<or> c = CHR ''0''"
    using nat_digits_all by (auto simp: appendInt_def Let_def list_all_iff split: if_splits)
  have z: "isDigit (CHR ''0'')" by (simp add: isDigit_def)
  from assms(3) a z show ?thesis by (auto simp: Format_def)
qed

lemma fmt_d_no_sep: "CHR ''|'' \<notin> set (fmt_d i)" "CHR 0x0A \<notin> set (fmt_d i)"
  using fmt_d_chars[of _ i] not_isDigit_special by auto

lemma Format_no_sep:
  assumes "valid_Time t" "year t \<le> 9999"
  shows "CHR ''|'' \<notin> set (Format t)" "CHR 0x0A \<notin> set (Format t)"
  using Format_chars[OF assms] not_isDigit_special by auto

lemma priority_no_LF:
  "p = PriorityHigh \<or> p = PriorityMedium \<or> p = PriorityLow \<Longrightarrow>
   CHR 0x0A \<notin> set p \<and> dropCR (pre @ p) = pre @ p"
  by (auto simp: PriorityHigh_def PriorityMedium_def PriorityLow_def dropCR_def)

lemma LoadTasks_line_task_line:
  assumes "valid_Task t" "encodable t"
  shows "LoadTasks_line k (dropCR (task_line t)) = Keep (decoded t) []"
    and "CHR 0x0A \<notin> set (task_line t)"
    and "length (task_line t) < MaxScanTokenSize"
proof -
  from assms have pr: "Priority t = PriorityHigh \<or> Priority t = PriorityMedium \<or> Priority t = PriorityLow"
    and vt: "valid_Time (CreatedAt t)" and yr: "year (CreatedAt t) \<le> 9999"
    and idr: "- (2 ^ 63) \<le> ID t" "ID t < 2 ^ 63"
    and ti: "CHR ''|'' \<notin> set (Title t)" "CHR 0x0A \<notin> set (Title t)"
    by (auto simp: valid_Task_def encodable_def)
  have five: "(5::nat) = Suc (Suc (Suc (Suc (Suc 0))))" by simp
  have dc: "dropCR (task_line t) = task_line t"
    using priority_no_LF[OF pr, of "fmt_d (ID t) @ ''|'' @ Title t @ ''|'' @ fmt_t (Done t) @ ''|''
     @ Format (CreatedAt t) @ ''|''"] by (simp add: task_line_def)
  have sp: "SplitN (task_line t) (CHR ''|'') 5
      = [fmt_d (ID t), Title t, fmt_t (Done t), Format (CreatedAt t), Priority t]"
    unfolding five task_line_def
    using fmt_d_no_sep(1)[of "ID t"] ti(1) fmt_t_chars(1)[of "Done t"] Format_no_sep(1)[OF vt yr]
    by (simp add: SplitN_sep del: SplitN.simps(3))
  show "LoadTasks_line k (dropCR (task_line t)) = Keep (decoded t) []"
    unfolding dc LoadTasks_line_def sp
    using pr by (auto simp: Atoi_fmt_d[OF idr] ParseBool_fmt_t Parse_Format[OF vt yr]
        decoded_def atSecondUTC_def Let_def)
  show "CHR 0x0A \<notin> set (task_line t)"
    using fmt_d_no_sep(2)[of "ID t"] ti(2) fmt_t_chars(2)[of "Done t"] Format_no_sep(2)[OF vt yr]
      priority_no_LF[OF pr, of "[]"]
    by (simp add: task_line_def)
  show "length (task_line t) < MaxScanTokenSize"
    using assms(2) by (simp add: encodable_def taskFileFormat_line)
qed

lemma LoadTasks_loop_encoded:
  "\<forall>t\<in>set ts. valid_Task t \<and> encodable t \<Longrightarrow>
   \<exists>m'. LoadTasks_loop (concat (map taskFileFormat ts)) n acc m diags
           = (diags, Some (acc @ map decoded ts, m'))"
proof (induction ts arbitrary: n acc m)
  case Nil
  then show ?case by (simp add: LoadTasks_loop_Nil)
next
  case (Cons t ts)
  then have t: "valid_Task t" "encodable t" by auto
  note L = LoadTasks_line_task_line[OF t]
  from Cons.prems have "\<forall>t\<in>set ts. valid_Task t \<and> encodable t" by simp
  from Cons.IH[OF this, of "Suc n" "acc @ [decoded t]"
      "if ID (decoded t) > m then ID (decoded t) else m"]
  obtain m' where "LoadTasks_loop (concat (map taskFileFormat ts)) (Suc n) (acc @ [decoded t])
       (if ID (decoded t) > m then ID (decoded t) else m) diags
     = (diags, Some ((acc @ [decoded t]) @ map decoded ts, m'))" by blast
  moreover have "concat (map taskFileFormat (t # ts))
      = task_line t @ CHR 0x0A # concat (map taskFileFormat ts)"
    by (simp add: taskFileFormat_line)
  ultimately show ?case
    by (simp only: LoadTasks_loop_line[OF L(2,3)] L(1) line_result.case) simp
qed

lemma LoadTasks_Some:
  "fs p = Some content \<Longrightarrow>
   LoadTasks NoFault fs p =
     (case LoadTasks_loop content 0 [] 0 [] of
        (diags, None) \<Rightarrow> (diags, Inl ErrRead)
      | (diags, Some (ts, maxID)) \<Rightarrow> (diags, Inr (ts, maxID)))"
  by (simp add: LoadTasks_def)

lemma SaveTasks_NoFault:
  "SaveTasks NoFault fs filePath ts
     = (None, (fs(filePath \<mapsto> concat (map taskFileFormat ts)))(filePath @ ''.tmp'' := None))"
  by (auto simp: SaveTasks_def Let_def SaveTasks_write_NoFault fun_upd_twist)

lemma valid_ex_time: "valid_Time ex_time"
  by (simp add: valid_Time_def ex_time_def daysIn_def)

lemma valid_ex_task:
  "- (2 ^ 63) \<le> i \<Longrightarrow> i < 2 ^ 63 \<Longrightarrow> p = ''high'' \<or> p = ''medium'' \<or> p = ''low'' \<Longrightarrow>
   valid_Task (ex_task i title dn p)"
  using valid_ex_time
  by (auto simp: valid_Task_def ex_task_def PriorityHigh_def PriorityMedium_def PriorityLow_def)

lemma ex_line2: "taskFileFormat (ex_task 2 ''b'' False ''low'') = ''2|b|false|2024-03-09 14:05:07|low\<newline>''"
  by code_simp

lemma ex_line3: "taskFileFormat (ex_task 3 ''c'' False ''medium'') = ''3|c|false|2024-03-09 14:05:07|medium\<newline>''"
  by code_simp

lemma ex_store_encodable: "\<forall>t\<in>set (tasks ex_store). valid_Task t \<and> encodable t"
proof -
  have "encodable (ex_task 1 ''a'' True ''high'')"
    unfolding encodable_def ex_line by (simp add: ex_task_def ex_time_def MaxScanTokenSize_def)
  moreover have "encodable (ex_task 2 ''b'' False ''low'')"
    unfolding encodable_def ex_line2 by (simp add: ex_task_def ex_time_def MaxScanTokenSize_def)
  moreover have "encodable (ex_task 3 ''c'' False ''medium'')"
    unfolding encodable_def ex_line3 by (simp add: ex_task_def ex_time_def MaxScanTokenSize_def)
  ultimately show ?thesis by (simp add: ex_store_def valid_ex_task)
qed

lemma bar_line: "taskFileFormat ex_bar_task = ''1|a|b|false|2024-03-09 14:05:07|high'' @ [CHR 0x0A]"
  by code_simp

lemma bar_decode:
  "LoadTasks_line (Suc 0) (dropCR ''1|a|b|false|2024-03-09 14:05:07|high'') = Skip (DiagBadDone 1 ''b'')"
  by code_simp

text \<open>
  Claim C1, as stated, fails for a valid record whose title contains the separator: the
  title \<^verbatim>\<open>a|b\<close> is written as it is, the line then splits one field too early, the done
  flag is read from \<^verbatim>\<open>b\<close>, and the line is skipped. Decoding the saved file yields no
  record.
\<close>

theorem SaveTasks_LoadTasks_roundtrip_counterexample:
  "valid_Task ex_bar_task
   \<and> fst (SaveTasks NoFault Map.empty ''tasks.txt'' [ex_bar_task]) = None
   \<and> LoadTasks NoFault (snd (SaveTasks NoFault Map.empty ''tasks.txt'' [ex_bar_task])) ''tasks.txt''
       = ([DiagBadDone 1 ''b''], Inr ([], 0))"
proof (intro conjI)
  show "valid_Task ex_bar_task" unfolding ex_bar_task_def by (rule valid_ex_task) simp_all
  show "fst (SaveTasks NoFault Map.empty ''tasks.txt'' [ex_bar_task]) = None"
    by (simp add: SaveTasks_NoFault)
  have c: "snd (SaveTasks NoFault Map.empty ''tasks.txt'' [ex_bar_task]) ''tasks.txt''
      = Some (''1|a|b|false|2024-03-09 14:05:07|high'' @ [CHR 0x0A])"
    by (simp add: SaveTasks_NoFault bar_line)
  show "LoadTasks NoFault (snd (SaveTasks NoFault Map.empty ''tasks.txt'' [ex_bar_task])) ''tasks.txt''
       = ([DiagBadDone 1 ''b''], Inr ([], 0))"
    apply (simp only: LoadTasks_Some[where fs = "snd (SaveTasks NoFault Map.empty ''tasks.txt'' [ex_bar_task])"
          and p = "''tasks.txt''", OF c])
    apply (subst LoadTasks_loop_line, simp, simp add: MaxScanTokenSize_def)
    apply (simp only: bar_decode line_result.case LoadTasks_loop_Nil)
    apply simp
    done
qed

text \<open>
  Claim C1, amended. For every sequence of valid task records whose titles contain neither
  \<^verbatim>\<open>|\<close> nor a line feed, whose years lie between 0 and 9999 and whose lines fit the
  scanner's buffer, \<^verbatim>\<open>SaveTasks\<close> followed by \<^verbatim>\<open>LoadTasks\<close> yields the same sequence,
  field for field: ID, title, done flag and priority are equal, and the creation time has
  the same calendar reading to the second (nanoseconds are dropped and the reading is
  taken as UTC). Records with whole-second UTC creation times come back exactly.
\<close>

theorem SaveTasks_LoadTasks_roundtrip:
  "(\<forall>t\<in>set ts. valid_Task t \<and> encodable t) \<longrightarrow>
     fst (SaveTasks NoFault fs filePath ts) = None
     \<and> LoadTasks NoFault (snd (SaveTasks NoFault fs filePath ts)) filePath
         = ([], Inr (map decoded ts, Max (insert 0 (ID ` set ts))))
     \<and> map ID (map decoded ts) = map ID ts
     \<and> map Title (map decoded ts) = map Title ts
     \<and> map Done (map decoded ts) = map Done ts
     \<and> map Priority (map decoded ts) = map Priority ts
     \<and> map (\<lambda>t. (year (CreatedAt t), month (CreatedAt t), day (CreatedAt t), hour (CreatedAt t),
                  minute (CreatedAt t), second (CreatedAt t))) (map decoded ts)
         = map (\<lambda>t. (year (CreatedAt t), month (CreatedAt t), day (CreatedAt t), hour (CreatedAt t),
                  minute (CreatedAt t), second (CreatedAt t))) ts
     \<and> ((\<forall>t\<in>set ts. nsec (CreatedAt t) = 0 \<and> zoneOffset (CreatedAt t) = 0) \<longrightarrow>
          map decoded ts = ts)"
proof (intro impI conjI)
  assume a: "\<forall>t\<in>set ts. valid_Task t \<and> encodable t"
  show "fst (SaveTasks NoFault fs filePath ts) = None" by (simp add: SaveTasks_NoFault)
  have c: "snd (SaveTasks NoFault fs filePath ts) filePath = Some (concat (map taskFileFormat ts))"
    by (simp add: SaveTasks_NoFault)
  from LoadTasks_loop_encoded[OF a, of 0 "[]" 0 "[]"]
  obtain m' where l: "LoadTasks_loop (concat (map taskFileFormat ts)) 0 [] 0 []
       = ([], Some (map decoded ts, m'))" by auto
  from LoadTasks_loop_maxID[OF l] have "m' = Max (insert 0 (ID ` set (map decoded ts)))" by simp
  moreover have "ID ` set (map decoded ts) = ID ` set ts"
    by (auto simp: decoded_def image_iff)
  ultimately have "m' = Max (insert 0 (ID ` set ts))" by (simp only:)
  with l show "LoadTasks NoFault (snd (SaveTasks NoFault fs filePath ts)) filePath
         = ([], Inr (map decoded ts, Max (insert 0 (ID ` set ts))))"
    by (simp add: LoadTasks_Some[where fs = "snd (SaveTasks NoFault fs filePath ts)"
          and p = filePath, OF c])
next
  assume "\<forall>t\<in>set ts. nsec (CreatedAt t) = 0 \<and> zoneOffset (CreatedAt t) = 0"
  then show "map decoded ts = ts"
    by (induction ts) (auto simp: decoded_def atSecondUTC_def)
qed (simp_all add: decoded_def atSecondUTC_def)

theorem SaveTasks_LoadTasks_roundtrip_witness:
  "LoadTasks NoFault (snd (SaveTasks NoFault ex_fs ''storage/tasks.txt'' (tasks ex_store)))
       ''storage/tasks.txt''
     = ([], Inr (tasks ex_store, 3))"
proof -
  have z: "\<forall>t\<in>set (tasks ex_store). nsec (CreatedAt t) = 0 \<and> zoneOffset (CreatedAt t) = 0"
    by (simp add: ex_store_def ex_task_def ex_time_def)
  have m: "Max (insert 0 (ID ` set (tasks ex_store))) = 3"
    by (simp add: ex_store_def ex_task_def)
  from SaveTasks_LoadTasks_roundtrip[of "tasks ex_store" ex_fs "''storage/tasks.txt''"]
    ex_store_encodable z m
  show ?thesis by (simp only:)
qed

end
